theory Spec2Isabelle
  imports Main "HOL-Library.AList"
begin

section \<open>Errors\<close>

text \<open>
  Errors of the external key/value client (package vaultkv).  The repository only ever asks
  one question of them, \<open>vaultkv.IsNotFound\<close>; every other client error is opaque.
\<close>

datatype kverr = ErrNotFound string | ErrKV string

fun vaultkv_IsNotFound :: "kverr \<Rightarrow> bool" where
  "vaultkv_IsNotFound (ErrNotFound _) = True"
| "vaultkv_IsNotFound (ErrKV _) = False"

fun kverr_text :: "kverr \<Rightarrow> string" where
  "kverr_text (ErrNotFound m) = m"
| "kverr_text (ErrKV m) = m"

text \<open>
  Errors seen by callers of package vault: the two typed errors \<open>secretNotFound\<close> (a message)
  and \<open>keyNotFound\<close> (secret, key), plain \<open>fmt.Errorf\<close> errors, client errors passed through
  unchanged, and Go panics (an explicit \<open>panic\<close> or an index out of range), which unwind
  through every caller.
\<close>

datatype error =
    secretNotFound string
  | keyNotFound string string
  | Errorf string
  | KVError kverr
  | Panic string

definition bq :: char where "bq = CHR 0x60"
definition sq :: char where "sq = CHR 0x27"

definition NewSecretNotFoundError :: "string \<Rightarrow> error" where
  \<comment> \<open>Modelled from the spec: vault/errors.go is absent; the message is the one
      vault/errors\_test.go expects (SecretNotFound of the error taxonomy).\<close>
  "NewSecretNotFoundError path = secretNotFound (''no secret exists at path '' @ [bq] @ path @ [bq])"

definition NewKeyNotFoundError :: "string \<Rightarrow> string \<Rightarrow> error" where
  \<comment> \<open>Modelled from the spec: vault/errors.go is absent (KeyNotFound of the error taxonomy).\<close>
  "NewKeyNotFoundError path key = keyNotFound path key"

fun IsSecretNotFound :: "error option \<Rightarrow> bool" where
  \<comment> \<open>Modelled from the spec: vault/errors.go is absent; behaviour as in vault/errors\_test.go.\<close>
  "IsSecretNotFound (Some (secretNotFound _)) = True"
| "IsSecretNotFound _ = False"

fun IsKeyNotFound :: "error option \<Rightarrow> bool" where
  \<comment> \<open>Modelled from the spec: vault/errors.go is absent; behaviour as in vault/errors\_test.go.\<close>
  "IsKeyNotFound (Some (keyNotFound _ _)) = True"
| "IsKeyNotFound _ = False"

definition IsNotFound :: "error option \<Rightarrow> bool" where
  \<comment> \<open>Modelled from the spec: vault/errors.go is absent; behaviour as in vault/errors\_test.go.\<close>
  "IsNotFound e = (IsSecretNotFound e \<or> IsKeyNotFound e)"

fun error_text :: "error \<Rightarrow> string" where
  \<comment> \<open>\<open>err.Error()\<close>; the text of a keyNotFound is the one vault/errors\_test.go expects\<close>
  "error_text (secretNotFound m) = m"
| "error_text (keyNotFound path key) =
     ''no key '' @ [bq] @ key @ [bq] @ '' exists in secret '' @ [bq] @ path @ [bq]"
| "error_text (Errorf m) = m"
| "error_text (KVError e) = kverr_text e"
| "error_text (Panic m) = m"

fun IsPanic :: "error option \<Rightarrow> bool" where
  "IsPanic (Some (Panic _)) = True"
| "IsPanic _ = False"

section \<open>Data model\<close>

text \<open>
  A decoded JSON value as the client hands it over in a \<open>map[string]interface{}\<close>: either a
  string, or any other value, represented by its compact JSON encoding (what
  \<open>json.Marshal\<close> returns for it).
\<close>

datatype jval = JString string | JOther string

definition json_Marshal :: "jval \<Rightarrow> error + string" where
  \<comment> \<open>encoding/json never fails on a value that was itself decoded from JSON\<close>
  "json_Marshal v = (case v of JString s \<Rightarrow> Inr (CHR 0x22 # s @ [CHR 0x22]) | JOther s \<Rightarrow> Inr s)"

type_synonym raw = "(string \<times> jval) list"

text \<open>
  A Secret is a Go \<open>map[string]string\<close>: an association list with \<open>AList.update\<close> and
  \<open>AList.delete\<close> (unique keys; the order is not observable in Go).
\<close>

type_synonym Secret = "(string \<times> string) list"

definition NewSecret :: Secret where
  "NewSecret = []"

definition Has :: "Secret \<Rightarrow> string \<Rightarrow> bool" where
  \<comment> \<open>Modelled from the spec: vault/secret.go is absent (Secret: a mapping from key to value).\<close>
  "Has s k = (map_of s k \<noteq> None)"

definition Get :: "Secret \<Rightarrow> string \<Rightarrow> string" where
  \<comment> \<open>Modelled from the spec: vault/secret.go is absent; a missing key reads as the empty string.\<close>
  "Get s k = (case map_of s k of Some v \<Rightarrow> v | None \<Rightarrow> [])"

definition Set_key :: "Secret \<Rightarrow> string \<Rightarrow> string \<Rightarrow> Secret" where
  \<comment> \<open>Modelled from the spec: vault/secret.go is absent; \<open>Set(key, value, false)\<close> overwrites.\<close>
  "Set_key s k v = AList.update k v s"

definition Delete_key :: "Secret \<Rightarrow> string \<Rightarrow> bool \<times> Secret" where
  \<comment> \<open>Modelled from the spec: vault/secret.go is absent; reports whether the key was there.\<close>
  "Delete_key s k = (Has s k, AList.delete k s)"

definition Empty :: "Secret \<Rightarrow> bool" where
  \<comment> \<open>Modelled from the spec: \<open>Empty()\<close> holds iff the mapping has zero entries.\<close>
  "Empty s = (s = [])"

datatype SecretState = SecretStateAlive | SecretStateDeleted | SecretStateDestroyed

record SecretVersion =
  Data :: Secret
  Number :: nat
  State :: SecretState

record SecretEntry =
  Path :: string
  Versions :: "SecretVersion list"

type_synonym Secrets = "SecretEntry list"

text \<open>The client's version record (vaultkv.KVVersion), with the fields the repository reads.\<close>

record KVVersion =
  Version :: nat
  Deleted :: bool
  Destroyed :: bool

record TreeOpts =
  FetchKeys :: bool
  GetOnly :: bool
  FetchAllVersions :: bool
  GetDeletedVersions :: bool
  AllowDeletedSecrets :: bool
  SkipVersionInfo :: bool

record TreeCopyOpts =
  Clear :: bool
  Pad :: bool

datatype verifyState = verifyStateAlive | verifyStateAliveOrDeleted

record verifyOpts =
  AnyVersion :: bool
  ReqState :: verifyState

record DeleteOpts =
  Destroy :: bool
  All :: bool

record MoveCopyOpts =
  SkipIfExists :: bool
  Quiet :: bool
  Deep :: bool
  DeletedVersions :: bool

section \<open>The backend and the world\<close>

text \<open>Every request sent to the client, in the order sent.\<close>

datatype call =
    CallGet string nat
  | CallList string
  | CallVersions string
  | CallMountVersion string
  | CallMountPath string
  | CallSet string Secret
  | CallDelete string "nat list" bool
  | CallDestroy string "nat list"
  | CallDestroyAll string

fun mutating :: "call \<Rightarrow> bool" where
  "mutating (CallSet _ _) = True"
| "mutating (CallDelete _ _ _) = True"
| "mutating (CallDestroy _ _) = True"
| "mutating (CallDestroyAll _) = True"
| "mutating _ = False"

text \<open>Lines written to standard error (the colour markup of go-ansi is not modelled).\<close>

datatype msg =
    RefuseClobber string
  | RefuseClobberTree string
  | ClobberedPath string

record 's world =
  store :: 's
  calls :: "call list"
  stderr :: "msg list"

text \<open>
  The vault handle.  The \<open>kv_\<close> fields are the external client (\<open>v.client\<close>), over a backend
  state \<open>'s\<close>: reads are functions of the state, mutations return an optional error and the
  next state.  The remaining fields are the functions of package vault whose source files
  (vault/utils.go, vault/tree.go) are absent: they are parameters of the model.
\<close>

record 's vault =
  kv_Get :: "string \<Rightarrow> nat \<Rightarrow> 's \<Rightarrow> kverr + raw"
  kv_List :: "string \<Rightarrow> 's \<Rightarrow> kverr + string list"
  kv_Versions :: "string \<Rightarrow> 's \<Rightarrow> kverr + KVVersion list"
  kv_MountVersion :: "string \<Rightarrow> 's \<Rightarrow> kverr + nat"
  kv_MountPath :: "string \<Rightarrow> 's \<Rightarrow> kverr + string"
  kv_Set :: "string \<Rightarrow> Secret \<Rightarrow> 's \<Rightarrow> kverr option \<times> 's"
  kv_Delete :: "string \<Rightarrow> nat list \<Rightarrow> bool \<Rightarrow> 's \<Rightarrow> kverr option \<times> 's"
  kv_Destroy :: "string \<Rightarrow> nat list \<Rightarrow> 's \<Rightarrow> kverr option \<times> 's"
  kv_DestroyAll :: "string \<Rightarrow> 's \<Rightarrow> kverr option \<times> 's"
  ParsePath :: "string \<Rightarrow> string \<times> string \<times> nat"
  Canonicalize :: "string \<Rightarrow> string"
  ConstructSecrets :: "string \<Rightarrow> TreeOpts \<Rightarrow> 's world \<Rightarrow> (error + Secrets) \<times> 's world"
  Paths :: "Secrets \<Rightarrow> string list"
  EntryCopy :: "SecretEntry \<Rightarrow> string \<Rightarrow> TreeCopyOpts \<Rightarrow> 's world \<Rightarrow> error option \<times> 's world"

definition logc :: "call \<Rightarrow> 's world \<Rightarrow> 's world" where
  "logc c w = w\<lparr>calls := calls w @ [c]\<rparr>"

definition client_Get :: "'s vault \<Rightarrow> string \<Rightarrow> nat \<Rightarrow> 's world \<Rightarrow> (kverr + raw) \<times> 's world" where
  "client_Get V p n w = (kv_Get V p n (store w), logc (CallGet p n) w)"

definition client_List :: "'s vault \<Rightarrow> string \<Rightarrow> 's world \<Rightarrow> (kverr + string list) \<times> 's world" where
  "client_List V p w = (kv_List V p (store w), logc (CallList p) w)"

definition client_Versions :: "'s vault \<Rightarrow> string \<Rightarrow> 's world \<Rightarrow> (kverr + KVVersion list) \<times> 's world" where
  "client_Versions V p w = (kv_Versions V p (store w), logc (CallVersions p) w)"

definition client_MountVersion :: "'s vault \<Rightarrow> string \<Rightarrow> 's world \<Rightarrow> (kverr + nat) \<times> 's world" where
  "client_MountVersion V p w = (kv_MountVersion V p (store w), logc (CallMountVersion p) w)"

definition client_MountPath :: "'s vault \<Rightarrow> string \<Rightarrow> 's world \<Rightarrow> (kverr + string) \<times> 's world" where
  "client_MountPath V p w = (kv_MountPath V p (store w), logc (CallMountPath p) w)"

definition mutate :: "call \<Rightarrow> ('s \<Rightarrow> kverr option \<times> 's) \<Rightarrow> 's world \<Rightarrow> kverr option \<times> 's world" where
  "mutate c f w = (case f (store w) of (e, s') \<Rightarrow> (e, (logc c w)\<lparr>store := s'\<rparr>))"

definition client_Set :: "'s vault \<Rightarrow> string \<Rightarrow> Secret \<Rightarrow> 's world \<Rightarrow> kverr option \<times> 's world" where
  "client_Set V p d = mutate (CallSet p d) (kv_Set V p d)"

definition client_Delete :: "'s vault \<Rightarrow> string \<Rightarrow> nat list \<Rightarrow> bool \<Rightarrow> 's world \<Rightarrow> kverr option \<times> 's world" where
  "client_Delete V p vs v1destroy = mutate (CallDelete p vs v1destroy) (kv_Delete V p vs v1destroy)"

definition client_Destroy :: "'s vault \<Rightarrow> string \<Rightarrow> nat list \<Rightarrow> 's world \<Rightarrow> kverr option \<times> 's world" where
  "client_Destroy V p vs = mutate (CallDestroy p vs) (kv_Destroy V p vs)"

definition client_DestroyAll :: "'s vault \<Rightarrow> string \<Rightarrow> 's world \<Rightarrow> kverr option \<times> 's world" where
  "client_DestroyAll V p = mutate (CallDestroyAll p) (kv_DestroyAll V p)"

definition kverr_opt :: "kverr option \<Rightarrow> error option" where
  "kverr_opt e = map_option KVError e"

section \<open>Read, List, Versions, MountVersion\<close>

fun stringify :: "raw \<Rightarrow> Secret \<Rightarrow> error + Secret" where
  "stringify [] acc = Inr acc"
| "stringify ((k, JString s) # rest) acc = stringify rest (AList.update k s acc)"
| "stringify ((k, v) # rest) acc =
     (case json_Marshal v of
        Inl e \<Rightarrow> Inl e
      | Inr b \<Rightarrow> stringify rest (AList.update k b acc))"

definition Read :: "'s vault \<Rightarrow> string \<Rightarrow> 's world \<Rightarrow> (error + Secret) \<times> 's world" where
  "Read V path0 w =
     (case ParsePath V path0 of (path, key, version) \<Rightarrow>
       (case client_Get V path version w of
          (Inl err, w1) \<Rightarrow>
            (if vaultkv_IsNotFound err then (Inl (NewSecretNotFoundError path), w1)
             else (Inl (KVError err), w1))
        | (Inr raw0, w1) \<Rightarrow>
            (if key \<noteq> [] then
               (case map_of raw0 key of
                  None \<Rightarrow> (Inl (NewKeyNotFoundError path key), w1)
                | Some val \<Rightarrow> (stringify [(key, val)] NewSecret, w1))
             else (stringify raw0 NewSecret, w1))))"

definition List_paths :: "'s vault \<Rightarrow> string \<Rightarrow> 's world \<Rightarrow> (error + string list) \<times> 's world" where
  "List_paths V path0 w =
     (let path = Canonicalize V path0 in
      case client_List V path w of
        (Inl err, w1) \<Rightarrow>
          (if vaultkv_IsNotFound err then (Inl (NewSecretNotFoundError path), w1)
           else (Inl (KVError err), w1))
      | (Inr paths, w1) \<Rightarrow> (Inr paths, w1))"

definition MountVersion :: "'s vault \<Rightarrow> string \<Rightarrow> 's world \<Rightarrow> (error + nat) \<times> 's world" where
  "MountVersion V path0 w =
     (case client_MountVersion V (Canonicalize V path0) w of
        (Inl err, w1) \<Rightarrow> (Inl (KVError err), w1)
      | (Inr n, w1) \<Rightarrow> (Inr n, w1))"

definition Versions_of :: "'s vault \<Rightarrow> string \<Rightarrow> 's world \<Rightarrow> (error + KVVersion list) \<times> 's world" where
  "Versions_of V path0 w =
     (let path = Canonicalize V path0 in
      case client_Versions V path w of
        (Inl err, w1) \<Rightarrow>
          (if vaultkv_IsNotFound err then (Inl (NewSecretNotFoundError path), w1)
           else (Inl (KVError err), w1))
      | (Inr ret, w1) \<Rightarrow> (Inr ret, w1))"

definition errIfFolder :: "'s vault \<Rightarrow> string \<Rightarrow> string \<Rightarrow> 's world \<Rightarrow> error option \<times> 's world" where
  "errIfFolder V path0 message w =
     (let path = Canonicalize V path0 in
      case List_paths V path w of
        (Inr _, w1) \<Rightarrow> (Some (Errorf message), w1)
      | (Inl err, w1) \<Rightarrow>
          (if \<not> IsNotFound (Some err) then (Some err, w1) else (None, w1)))"

section \<open>Small Go idioms\<close>

definition go_index :: "'a list \<Rightarrow> nat \<Rightarrow> error + 'a" where
  \<comment> \<open>\<open>xs[i]\<close>: a run-time panic when out of range\<close>
  "go_index xs i = (if i < length xs then Inr (xs ! i) else Inl (Panic ''index out of range''))"

definition go_last :: "'a list \<Rightarrow> error + 'a" where
  \<comment> \<open>\<open>xs[len(xs)-1]\<close>: index \<open>-1\<close> panics on an empty slice\<close>
  "go_last xs = (if xs = [] then Inl (Panic ''index out of range'') else Inr (last xs))"

fun show_nat :: "nat \<Rightarrow> string" where
  "show_nat n =
     (if n < 10 then [char_of (48 + n)]
      else show_nat (n div 10) @ [char_of (48 + n mod 10)])"

declare show_nat.simps [simp del]

definition PathHasKey :: "'s vault \<Rightarrow> string \<Rightarrow> bool" where
  \<comment> \<open>Modelled from the spec: vault/utils.go is absent; a pure predicate on the raw address,
      true when the address carries a key.\<close>
  "PathHasKey V path = (case ParsePath V path of (_, key, _) \<Rightarrow> key \<noteq> [])"

section \<open>The version-state verifier\<close>

definition deletedErr :: "string \<Rightarrow> error" where
  "deletedErr path = secretNotFound ([bq] @ path @ [sq] @ '' is deleted'')"

definition destroyedErr :: "string \<Rightarrow> error" where
  "destroyedErr path = secretNotFound ([bq] @ path @ [sq] @ '' is destroyed'')"

definition notYetErr :: "string \<Rightarrow> error" where
  "notYetErr path =
     secretNotFound ([bq] @ path @ [sq] @ '' references a version that does not yet exist'')"

definition verifySecretExists :: "'s vault \<Rightarrow> string \<Rightarrow> 's world \<Rightarrow> error option \<times> 's world" where
  "verifySecretExists V path0 w =
     (let path = Canonicalize V path0 in
      case Read V path w of
        (Inr _, w1) \<Rightarrow> (None, w1)
      | (Inl err, w1) \<Rightarrow>
          (if IsNotFound (Some err) then
             (case errIfFolder V path ([bq] @ path @ [bq] @ '' points to a folder, not a secret'') w1 of
                (Some folderErr, w2) \<Rightarrow> (Some folderErr, w2)
              | (None, w2) \<Rightarrow> (Some err, w2))
           else (Some err, w1)))"

definition satisfies :: "verifyState \<Rightarrow> KVVersion \<Rightarrow> bool" where
  \<comment> \<open>the test of the \<open>AnyVersion\<close> loop\<close>
  "satisfies st v =
     (\<not> (Deleted v \<or> Destroyed v) \<or> (st = verifyStateAliveOrDeleted \<and> \<not> Destroyed v))"

definition pickVersion :: "string \<Rightarrow> nat \<Rightarrow> KVVersion list \<Rightarrow> error + KVVersion" where
  "pickVersion path version versions =
     (if version = 0 then go_last versions
      else
        (case go_index versions 0 of
           Inl p \<Rightarrow> Inl p
         | Inr v0 \<Rightarrow>
             (if Version v0 > version then Inl (destroyedErr path)
              else
                (case go_last versions of
                   Inl p \<Rightarrow> Inl p
                 | Inr vl \<Rightarrow>
                     (if version > Version vl then Inl (notYetErr path)
                      else go_index versions (version - Version v0))))))"

definition checkVersions :: "string \<Rightarrow> nat \<Rightarrow> verifyOpts \<Rightarrow> KVVersion list \<Rightarrow> error option" where
  \<comment> \<open>the body of \<open>case 2\<close> once the version list has been fetched\<close>
  "checkVersions path version opts versions =
     (if \<not> AnyVersion opts then
        (case pickVersion path version versions of
           Inl e \<Rightarrow> Some e
         | Inr v \<Rightarrow>
             (if Destroyed v then Some (destroyedErr path)
              else if ReqState opts = verifyStateAlive \<and> Deleted v then Some (deletedErr path)
              else None))
      else if list_ex (satisfies (ReqState opts)) versions then None
      else if ReqState opts = verifyStateAlive then
        Some (secretNotFound (''No living versions for '' @ [bq] @ path @ [sq]))
      else Some (secretNotFound (''No living or deleted versions for '' @ [bq] @ path @ [sq])))"

definition verifySecretState :: "'s vault \<Rightarrow> string \<Rightarrow> verifyOpts \<Rightarrow> 's world \<Rightarrow> error option \<times> 's world" where
  "verifySecretState V path opts w =
     (case ParsePath V path of (secret, _, version) \<Rightarrow>
      (case MountVersion V secret w of
        (Inl err, w1) \<Rightarrow> (Some err, w1)
      | (Inr mountV, w1) \<Rightarrow>
          (if mountV = 1 then verifySecretExists V path w1
           else if mountV = 2 then
             (case Versions_of V secret w1 of
                (Inl err, w2) \<Rightarrow>
                  (if IsNotFound (Some err) then
                     (case errIfFolder V path
                             ([bq] @ path @ [sq] @ '' points to a folder, not a secret'') w2 of
                        (Some e, w3) \<Rightarrow> (Some e, w3)
                      | (None, w3) \<Rightarrow> (Some (NewSecretNotFoundError secret), w3))
                   else (Some err, w2))
              | (Inr versions, w2) \<Rightarrow> (checkVersions path version opts versions, w2))
           else (Some (Errorf (''Unsupported mount version: '' @ show_nat mountV)), w1))))"

definition ambiguousErr :: error where
  "ambiguousErr = Errorf ''Cannot delete specific non-isolated key of non-latest version''"

definition canSemanticallyDelete :: "'s vault \<Rightarrow> string \<Rightarrow> 's world \<Rightarrow> error option \<times> 's world" where
  "canSemanticallyDelete V path w =
     (case ParsePath V path of (justSecret, key, version) \<Rightarrow>
      if key = [] \<or> version = 0 then (None, w)
      else
        (case Versions_of V justSecret w of
           (Inl err, w1) \<Rightarrow> (Some err, w1)
         | (Inr versions, w1) \<Rightarrow>
             (case go_last versions of
                Inl p \<Rightarrow> (Some p, w1)
              | Inr vl \<Rightarrow>
                  (if Version vl = version then (None, w1)
                   else
                     (case Read V path w1 of
                        (Inl err, w2) \<Rightarrow> (Some err, w2)
                      | (Inr s, w2) \<Rightarrow>
                          (if length s \<noteq> 1 \<or> \<not> Has s key then (Some ambiguousErr, w2)
                           else (None, w2)))))))"

section \<open>The mutation engine: delete\<close>

function advance :: "nat list \<Rightarrow> nat \<Rightarrow> nat \<Rightarrow> nat" where
  "advance versions verIdx ver =
     (if verIdx < length versions \<and> versions ! verIdx < ver
      then advance versions (Suc verIdx) ver else verIdx)"
  by pat_completeness auto
termination
  by (relation "measure (\<lambda>(versions, verIdx, ver). length versions - verIdx)") auto

declare advance.simps [simp del]

fun shouldNuke :: "KVVersion list \<Rightarrow> nat list \<Rightarrow> nat \<Rightarrow> bool" where
  "shouldNuke [] versions verIdx = True"
| "shouldNuke (a # rest) versions verIdx =
     (let verIdx' = advance versions verIdx (Version a) in
      if \<not> Destroyed a \<and> (verIdx' \<ge> length versions \<or> versions ! verIdx' \<noteq> Version a)
      then False
      else shouldNuke rest versions verIdx')"

definition deleteEntireSecret :: "'s vault \<Rightarrow> string \<Rightarrow> bool \<Rightarrow> bool \<Rightarrow> 's world \<Rightarrow> error option \<times> 's world" where
  "deleteEntireSecret V path destroy all w =
     (case ParsePath V path of (secret, _, version) \<Rightarrow>
      if destroy \<and> all then
        (case client_DestroyAll V secret w of (e, w1) \<Rightarrow> (kverr_opt e, w1))
      else
        (let versions = (if version \<noteq> 0 then [version] else []) in
         if destroy then
           (case Versions_of V secret w of
              (Inl err, w1) \<Rightarrow> (Some err, w1)
            | (Inr allVersions, w1) \<Rightarrow>
                (case (if versions = []
                       then (case go_last allVersions of
                               Inl p \<Rightarrow> Inl p
                             | Inr vl \<Rightarrow> Inr [Version vl])
                       else Inr versions) of
                   Inl p \<Rightarrow> (Some p, w1)
                 | Inr versions' \<Rightarrow>
                     (if shouldNuke allVersions versions' 0 then
                        (case client_DestroyAll V secret w1 of (e, w2) \<Rightarrow> (kverr_opt e, w2))
                      else
                        (case client_Destroy V secret versions' w1 of
                           (e, w2) \<Rightarrow> (kverr_opt e, w2)))))
         else if all then
           (case Versions_of V secret w of
              (Inl err, w1) \<Rightarrow> (Some err, w1)
            | (Inr allVersions, w1) \<Rightarrow>
                (case client_Delete V secret (map Version allVersions) True w1 of
                   (e, w2) \<Rightarrow> (kverr_opt e, w2)))
         else
           (case client_Delete V secret versions True w of (e, w1) \<Rightarrow> (kverr_opt e, w1))))"

text \<open>
  \<open>Write\<close>, \<open>deleteIfPresent\<close>, \<open>Delete\<close> and \<open>deleteSpecificKey\<close> call each other:
  writing an empty secret deletes, and deleting a key writes the remaining keys back.
  The cycle ends because the secret written back is not empty.
\<close>

function Write :: "'s vault \<Rightarrow> string \<Rightarrow> Secret \<Rightarrow> 's world \<Rightarrow> error option \<times> 's world"
  and deleteIfPresent :: "'s vault \<Rightarrow> string \<Rightarrow> DeleteOpts \<Rightarrow> 's world \<Rightarrow> error option \<times> 's world"
  and Delete :: "'s vault \<Rightarrow> string \<Rightarrow> DeleteOpts \<Rightarrow> 's world \<Rightarrow> error option \<times> 's world"
  and deleteSpecificKey :: "'s vault \<Rightarrow> string \<Rightarrow> 's world \<Rightarrow> error option \<times> 's world"
where
  "Write V path0 s w =
     (case ParsePath V path0 of (path, key, version) \<Rightarrow>
      if key \<noteq> [] then (Some (Errorf ''cannot write to paths in /path:key notation''), w)
      else if version \<noteq> 0 then (Some (Errorf ''cannot write to paths in /path^version notation''), w)
      else if Empty s then deleteIfPresent V path \<lparr>Destroy = False, All = False\<rparr> w
      else
        (case client_Set V path s w of
           (Some err, w1) \<Rightarrow>
             (if vaultkv_IsNotFound err then (Some (NewSecretNotFoundError path), w1)
              else (Some (KVError err), w1))
         | (None, w1) \<Rightarrow> (None, w1)))"
| "deleteIfPresent V path opts w =
     (case ParsePath V path of (secretpath, _, _) \<Rightarrow>
      (case Read V secretpath w of
        (Inl err, w1) \<Rightarrow>
          (if IsSecretNotFound (Some err) then (None, w1) else (Some err, w1))
      | (Inr _, w1) \<Rightarrow>
          (case Delete V path opts w1 of
             (err, w2) \<Rightarrow> (if IsKeyNotFound err then (None, w2) else (err, w2)))))"
| "Delete V path0 opts w =
     (let path = Canonicalize V path0;
          reqState = (if Destroy opts then verifyStateAliveOrDeleted else verifyStateAlive)
      in
      case verifySecretState V path \<lparr>AnyVersion = All opts, ReqState = reqState\<rparr> w of
        (Some err, w1) \<Rightarrow> (Some err, w1)
      | (None, w1) \<Rightarrow>
          (case canSemanticallyDelete V path w1 of
             (Some err, w2) \<Rightarrow> (Some err, w2)
           | (None, w2) \<Rightarrow>
               (if \<not> PathHasKey V path then deleteEntireSecret V path (Destroy opts) (All opts) w2
                else deleteSpecificKey V path w2)))"
| "deleteSpecificKey V path w =
     (case ParsePath V path of (secretPath, key, _) \<Rightarrow>
      (case Read V secretPath w of
        (Inl err, w1) \<Rightarrow> (Some err, w1)
      | (Inr secret, w1) \<Rightarrow>
          (case Delete_key secret key of
             (deleted, secret') \<Rightarrow>
               (if \<not> deleted then (Some (NewKeyNotFoundError secretPath key), w1)
                else if Empty secret' then deleteEntireSecret V secretPath False False w1
                else Write V secretPath secret' w1))))"
  by pat_completeness auto
termination
  by (relation "measure (\<lambda>x. case x of
          Inl (Inl (V, p, s, w)) \<Rightarrow> (if Empty s then 4 else 0)
        | Inl (Inr _) \<Rightarrow> 3
        | Inr (Inl _) \<Rightarrow> 2
        | Inr (Inr _) \<Rightarrow> (1::nat))") auto

declare Write.simps [simp del] deleteIfPresent.simps [simp del]
  Delete.simps [simp del] deleteSpecificKey.simps [simp del]

section \<open>The mutation engine: copy and move\<close>


fun find_version :: "nat \<Rightarrow> SecretVersion list \<Rightarrow> SecretVersion option" where
  "find_version n [] = None"
| "find_version n (v # vs) = (if Number v = n then Some v else find_version n vs)"

definition Copy_body :: "'s vault \<Rightarrow> string \<Rightarrow> string \<Rightarrow> MoveCopyOpts \<Rightarrow> 's world \<Rightarrow> error option \<times> 's world" where
  \<comment> \<open>\<open>Copy\<close> after the \<open>SkipIfExists\<close> check\<close>
  "Copy_body V oldpath newpath opts w =
     (case ParsePath V oldpath of (srcPath, srcKey, srcVersion) \<Rightarrow>
      (case ParsePath V newpath of (dstPath, dstKey, dstVersion) \<Rightarrow>
       if dstVersion \<noteq> 0 then
         (Some (Errorf ''Copying a secret to a specific destination version is not supported''), w)
       else if Deep opts \<and> srcVersion \<noteq> 0 then
         (Some (Errorf ''Performing a deep copy of a specified version is not supported''), w)
       else if srcKey \<noteq> [] then
         (if Deep opts then (Some (Errorf ''Cannot take deep copy of a specific key''), w)
          else
            (case Read V oldpath w of
               (Inl err, w1) \<Rightarrow> (Some err, w1)
             | (Inr srcSecret, w1) \<Rightarrow>
                 (if \<not> Has srcSecret srcKey then (Some (NewKeyNotFoundError oldpath srcKey), w1)
                  else
                    (let dstKey' = (if dstKey = [] then srcKey else dstKey) in
                     case Read V dstPath w1 of
                       (Inl err, w2) \<Rightarrow>
                         (if \<not> IsSecretNotFound (Some err) then (Some err, w2)
                          else Write V dstPath (Set_key NewSecret dstKey' (Get srcSecret srcKey)) w2)
                     | (Inr dstOrig, w2) \<Rightarrow>
                         Write V dstPath (Set_key dstOrig dstKey' (Get srcSecret srcKey)) w2))))
       else if dstKey \<noteq> [] then
         (Some (Errorf (''Cannot move full secret '' @ [bq] @ oldpath @ [bq] @
                        '' into specific key '' @ [bq] @ newpath @ [bq])), w)
       else
         (case ConstructSecrets V srcPath
                 \<lparr>FetchKeys = True, GetOnly = True,
                  FetchAllVersions = (Deep opts \<or> srcVersion \<noteq> 0),
                  GetDeletedVersions = (Deep opts \<and> DeletedVersions opts),
                  AllowDeletedSecrets = (Deep opts \<or> srcVersion \<noteq> 0),
                  SkipVersionInfo = False\<rparr> w of
            (Inl err, w1) \<Rightarrow> (Some err, w1)
          | (Inr t, w1) \<Rightarrow>
              (case t of
                 [] \<Rightarrow> (Some (NewSecretNotFoundError srcPath), w1)
               | t0 # _ \<Rightarrow>
                   (let t0' = (if srcVersion \<noteq> 0 then
                                 (case find_version srcVersion (Versions t0) of
                                    Some sv \<Rightarrow> t0\<lparr>Versions := [sv]\<rparr>
                                  | None \<Rightarrow> t0)
                               else t0)
                    in EntryCopy V t0' dstPath \<lparr>Clear = Deep opts, Pad = Deep opts\<rparr> w1)))))"

definition say :: "msg list \<Rightarrow> 's world \<Rightarrow> 's world" where
  "say ms w = w\<lparr>stderr := stderr w @ ms\<rparr>"

definition Copy :: "'s vault \<Rightarrow> string \<Rightarrow> string \<Rightarrow> MoveCopyOpts \<Rightarrow> 's world \<Rightarrow> error option \<times> 's world" where
  "Copy V oldpath0 newpath0 opts w =
     (let oldpath = Canonicalize V oldpath0; newpath = Canonicalize V newpath0 in
      if DeletedVersions opts \<and> \<not> Deep opts then
        (Some (Panic ''Gave DeletedVersions and not Deep''), w)
      else
        (case verifySecretState V oldpath
                \<lparr>AnyVersion = Deep opts,
                 ReqState = (if DeletedVersions opts then verifyStateAliveOrDeleted
                             else verifyStateAlive)\<rparr> w of
           (Some err, w1) \<Rightarrow> (Some err, w1)
         | (None, w1) \<Rightarrow>
             (if SkipIfExists opts then
                (case Read V newpath w1 of
                   (Inr _, w2) \<Rightarrow>
                     (None, if \<not> Quiet opts then say [RefuseClobber newpath] w2 else w2)
                 | (Inl err, w2) \<Rightarrow>
                     (if \<not> IsNotFound (Some err) then (Some err, w2)
                      else Copy_body V oldpath newpath opts w2))
              else Copy_body V oldpath newpath opts w1)))"






definition Move :: "'s vault \<Rightarrow> string \<Rightarrow> string \<Rightarrow> MoveCopyOpts \<Rightarrow> 's world \<Rightarrow> error option \<times> 's world" where
  "Move V oldpath0 newpath0 opts w =
     (let oldpath = Canonicalize V oldpath0; newpath = Canonicalize V newpath0 in
      case canSemanticallyDelete V oldpath w of
        (Some err, w1) \<Rightarrow>
          (if IsPanic (Some err) then (Some err, w1)
           else (Some (Errorf (''Can'' @ [sq] @ ''t move '' @ [bq] @ oldpath @ [sq] @ '': '' @
                               error_text err @ ''. Did you mean cp?'')), w1))
      | (None, w1) \<Rightarrow>
          (case Copy V oldpath newpath opts w1 of
             (Some err, w2) \<Rightarrow> (Some err, w2)
           | (None, w2) \<Rightarrow>
               (if Deep opts \<and> DeletedVersions opts then
                  (case client_DestroyAll V oldpath w2 of (err, w3) \<Rightarrow> (None, w3))
                else
                  (case Delete V oldpath \<lparr>Destroy = False, All = False\<rparr> w2 of
                     (Some err, w3) \<Rightarrow> (Some err, w3)
                   | (None, w3) \<Rightarrow> (None, w3)))))"

section \<open>Export: choosing the format\<close>

record exportVersion =
  xDeleted :: bool
  xDestroyed :: bool
  xValue :: "(string \<times> string) list"

record exportSecret =
  FirstVersion :: nat
  xVersions :: "exportVersion list"

record exportFormat =
  ExportVersion :: nat
  xData :: "(string \<times> exportSecret) list"
  RequiresVersioning :: "(string \<times> bool) list"

text \<open>
  The value handed to \<open>json.Marshal\<close>: still \<open>nil\<close>, the legacy map from path to secret,
  or the array of envelopes.
\<close>

datatype toExport =
    ExportNil
  | ExportLegacy "(string \<times> Secret) list"
  | ExportEnvelope "exportFormat list"

record ExportOpts =
  ExpDeleted :: bool
  ExpShallow :: bool

definition mustV2Export :: "Secrets \<Rightarrow> bool" where
  "mustV2Export secrets = list_ex (\<lambda>s. length (Versions s) > 1) secrets"

fun v1Export :: "Secrets \<Rightarrow> (string \<times> Secret) list \<Rightarrow> error + (string \<times> Secret) list" where
  "v1Export [] export = Inr export"
| "v1Export (s # rest) export =
     (case go_index (Versions s) 0 of
        Inl p \<Rightarrow> Inl p
      | Inr v0 \<Rightarrow> v1Export rest (AList.update (Path s) (Data v0) export))"

definition Keys :: "Secret \<Rightarrow> string list" where
  \<comment> \<open>Modelled from the spec: vault/secret.go is absent; the keys of the mapping (the order
      in which a map is filled from them is not observable)\<close>
  "Keys d = remdups (map fst d)"

definition export_version :: "ExportOpts \<Rightarrow> SecretVersion \<Rightarrow> exportVersion" where
  "export_version opts version =
     \<lparr>xDeleted = (State version = SecretStateDeleted \<and> ExpDeleted opts),
      xDestroyed = (State version = SecretStateDestroyed \<or>
                    (State version = SecretStateDeleted \<and> \<not> ExpDeleted opts)),
      xValue = fold (\<lambda>key value. AList.update key (Get (Data version) key) value)
                 (Keys (Data version)) []\<rparr>"

fun v2Export_loop ::
  "'s vault \<Rightarrow> ExportOpts \<Rightarrow> Secrets \<Rightarrow> exportFormat \<Rightarrow> 's world \<Rightarrow> (error + exportFormat) \<times> 's world" where
  "v2Export_loop V opts [] export w = (Inr export, w)"
| "v2Export_loop V opts (secret # rest) export w =
     (case (if length (Versions secret) > 1 then
              (case client_MountPath V (Path secret) w of
                 (r, w1) \<Rightarrow>
                   (export\<lparr>RequiresVersioning :=
                      AList.update (case r of Inr mount \<Rightarrow> mount | Inl _ \<Rightarrow> []) True
                        (RequiresVersioning export)\<rparr>, w1))
            else (export, w)) of
        (export1, w1) \<Rightarrow>
          (case go_index (Versions secret) 0 of
             Inl p \<Rightarrow> (Inl p, w1)
           | Inr v0 \<Rightarrow>
               (let first = (if Number v0 = 1 \<or> ExpShallow opts then 0 else Number v0);
                    thisSecret = \<lparr>FirstVersion = first,
                                  xVersions = map (export_version opts) (Versions secret)\<rparr>
                in v2Export_loop V opts rest
                     (export1\<lparr>xData := AList.update (Path secret) thisSecret (xData export1)\<rparr>)
                     w1)))"

definition v2Export :: "'s vault \<Rightarrow> ExportOpts \<Rightarrow> Secrets \<Rightarrow> 's world \<Rightarrow> (error + toExport) \<times> 's world" where
  \<comment> \<open>\<open>toExport\<close> is assigned in the loop body, and the envelope it wraps shares its two maps
      with \<open>export\<close>: after the loop it holds the finished envelope, or is still \<open>nil\<close> when
      the loop never ran\<close>
  "v2Export V opts secrets w =
     (case v2Export_loop V opts secrets
             \<lparr>ExportVersion = 2, xData = [], RequiresVersioning = []\<rparr> w of
        (Inl p, w1) \<Rightarrow> (Inl p, w1)
      | (Inr export, w1) \<Rightarrow>
          (Inr (if secrets = [] then ExportNil else ExportEnvelope [export]), w1))"

definition Export :: "'s vault \<Rightarrow> ExportOpts \<Rightarrow> Secrets \<Rightarrow> 's world \<Rightarrow> (error + toExport) \<times> 's world" where
  \<comment> \<open>the export handler from the format decision to the value that is marshalled\<close>
  "Export V opts secrets w =
     (if mustV2Export secrets then v2Export V opts secrets w
      else
        (case v1Export secrets [] of
           Inl p \<Rightarrow> (Inl p, w)
         | Inr export \<Rightarrow> (Inr (ExportLegacy export), w)))"

section \<open>A concrete vault: an in-memory versioned store\<close>

text \<open>
  The theorems below hold for every vault handle.  To run the model on concrete inputs, here is
  one handle: a small in-memory store with the lifecycle of a version-2 mount (a write appends
  a version, a delete marks versions deleted, a deleted or destroyed version reads as not
  found), the address codec and canonicalisation as the specification describes them, and
  plain stand-ins for the tree lister and the history replay.
\<close>

type_synonym mem = "(string \<times> (KVVersion \<times> raw) list) list"

definition notFound :: kverr where
  "notFound = ErrNotFound ''404 not found''"

definition mem_pick :: "nat \<Rightarrow> (KVVersion \<times> raw) list \<Rightarrow> (KVVersion \<times> raw) option" where
  "mem_pick n vs =
     (if n = 0 then (if vs = [] then None else Some (last vs))
      else find (\<lambda>e. Version (fst e) = n) vs)"

definition mem_Get :: "string \<Rightarrow> nat \<Rightarrow> mem \<Rightarrow> kverr + raw" where
  "mem_Get p n st =
     (case map_of st p of
        None \<Rightarrow> Inl notFound
      | Some vs \<Rightarrow>
          (case mem_pick n vs of
             None \<Rightarrow> Inl notFound
           | Some e \<Rightarrow> (if Deleted (fst e) \<or> Destroyed (fst e) then Inl notFound else Inr (snd e))))"

definition mem_List :: "string \<Rightarrow> mem \<Rightarrow> kverr + string list" where
  "mem_List p st =
     (let kids = map (\<lambda>e. drop (length p + 1) (fst e))
                   (filter (\<lambda>e. take (length p + 1) (fst e) = p @ ''/'') st)
      in if kids = [] then Inl notFound else Inr kids)"

definition mem_Versions :: "string \<Rightarrow> mem \<Rightarrow> kverr + KVVersion list" where
  "mem_Versions p st = (case map_of st p of None \<Rightarrow> Inl notFound | Some vs \<Rightarrow> Inr (map fst vs))"

definition mem_Set :: "string \<Rightarrow> Secret \<Rightarrow> mem \<Rightarrow> kverr option \<times> mem" where
  "mem_Set p d st =
     (let vs = (case map_of st p of None \<Rightarrow> [] | Some vs \<Rightarrow> vs);
          n = (if vs = [] then 1 else Suc (Version (fst (last vs))))
      in (None, AList.update p
                  (vs @ [(\<lparr>Version = n, Deleted = False, Destroyed = False\<rparr>,
                          map (\<lambda>kv. (fst kv, JString (snd kv))) d)]) st))"

definition mem_targets :: "nat list \<Rightarrow> (KVVersion \<times> raw) list \<Rightarrow> nat list" where
  \<comment> \<open>no version given means the latest one\<close>
  "mem_targets ns vs = (if ns = [] \<and> vs \<noteq> [] then [Version (fst (last vs))] else ns)"

definition mem_Delete :: "string \<Rightarrow> nat list \<Rightarrow> bool \<Rightarrow> mem \<Rightarrow> kverr option \<times> mem" where
  "mem_Delete p ns v1destroy st =
     (case map_of st p of
        None \<Rightarrow> (Some notFound, st)
      | Some vs \<Rightarrow>
          (None, AList.update p
                   (map (\<lambda>e. if Version (fst e) \<in> set (mem_targets ns vs)
                              then ((fst e)\<lparr>Deleted := True\<rparr>, snd e) else e) vs) st))"

definition mem_Destroy :: "string \<Rightarrow> nat list \<Rightarrow> mem \<Rightarrow> kverr option \<times> mem" where
  "mem_Destroy p ns st =
     (case map_of st p of
        None \<Rightarrow> (Some notFound, st)
      | Some vs \<Rightarrow>
          (None, AList.update p
                   (map (\<lambda>e. if Version (fst e) \<in> set (mem_targets ns vs)
                              then ((fst e)\<lparr>Destroyed := True\<rparr>, []) else e) vs) st))"

definition mem_DestroyAll :: "string \<Rightarrow> mem \<Rightarrow> kverr option \<times> mem" where
  "mem_DestroyAll p st = (None, AList.delete p st)"

definition backslash :: char where "backslash = CHR 0x5C"

fun split_unescaped :: "char \<Rightarrow> string \<Rightarrow> string \<times> string option" where
  \<comment> \<open>what precedes the first unescaped delimiter, and what follows it\<close>
  "split_unescaped d [] = ([], None)"
| "split_unescaped d [c] = (if c = d then ([], Some []) else ([c], None))"
| "split_unescaped d (c # e # rest) =
     (if c = backslash \<and> (e = CHR '':'' \<or> e = CHR ''^'') then
        (case split_unescaped d rest of (a, b) \<Rightarrow> (c # e # a, b))
      else if c = d then ([], Some (e # rest))
      else (case split_unescaped d (e # rest) of (a, b) \<Rightarrow> (c # a, b)))"

fun unescape :: "string \<Rightarrow> string" where
  "unescape [] = []"
| "unescape [c] = [c]"
| "unescape (c # e # rest) =
     (if c = backslash \<and> (e = CHR '':'' \<or> e = CHR ''^'') then e # unescape rest
      else c # unescape (e # rest))"

definition digit_of :: "char \<Rightarrow> nat option" where
  "digit_of c =
     (let n = (of_char c :: nat) in if 48 \<le> n \<and> n \<le> 57 then Some (n - 48) else None)"

fun parse_nat :: "string \<Rightarrow> nat \<Rightarrow> nat option" where
  "parse_nat [] acc = Some acc"
| "parse_nat (c # cs) acc =
     (case digit_of c of None \<Rightarrow> None | Some k \<Rightarrow> parse_nat cs (10 * acc + k))"

definition split_version :: "string \<Rightarrow> string \<times> nat" where
  \<comment> \<open>a suffix after the caret that is not a number is literal text\<close>
  "split_version seg =
     (case split_unescaped (CHR ''^'') seg of
        (a, None) \<Rightarrow> (unescape seg, 0)
      | (a, Some vtxt) \<Rightarrow>
          (if vtxt = [] then (unescape seg, 0)
           else (case parse_nat vtxt 0 of
                   None \<Rightarrow> (unescape seg, 0)
                 | Some n \<Rightarrow> (unescape a, n))))"

definition ParsePath_spec :: "string \<Rightarrow> string \<times> string \<times> nat" where
  \<comment> \<open>Modelled from the spec: vault/utils.go is absent.  \<open>Parse\<close> splits on the first unescaped
      colon to get the key, then on the first unescaped caret (within the key segment if
      present, else the path) to get the version, and unescapes elsewhere.\<close>
  "ParsePath_spec input =
     (case split_unescaped (CHR '':'') input of
        (a, None) \<Rightarrow> (case split_version input of (path, n) \<Rightarrow> (path, [], n))
      | (a, Some k) \<Rightarrow> (case split_version k of (key, n) \<Rightarrow> (unescape a, key, n)))"

fun collapse :: "string \<Rightarrow> string" where
  "collapse [] = []"
| "collapse [c] = [c]"
| "collapse (c # e # rest) =
     (if c = CHR ''/'' \<and> e = CHR ''/'' then collapse (e # rest) else c # collapse (e # rest))"

definition Canonicalize_spec :: "string \<Rightarrow> string" where
  \<comment> \<open>Modelled from the spec: vault/utils.go is absent.  \<open>Canonicalize\<close> trims leading and
      trailing slashes and collapses runs of slashes.\<close>
  "Canonicalize_spec p =
     rev (dropWhile (\<lambda>c. c = CHR ''/'') (rev (dropWhile (\<lambda>c. c = CHR ''/'') (collapse p))))"

definition mem_version :: "KVVersion \<times> raw \<Rightarrow> SecretVersion" where
  "mem_version e =
     \<lparr>Data = (case stringify (snd e) [] of Inr d \<Rightarrow> d | Inl _ \<Rightarrow> []),
      Number = Version (fst e),
      State = (if Destroyed (fst e) then SecretStateDestroyed
               else if Deleted (fst e) then SecretStateDeleted else SecretStateAlive)\<rparr>"

definition mem_ConstructSecrets :: "string \<Rightarrow> TreeOpts \<Rightarrow> mem world \<Rightarrow> (error + Secrets) \<times> mem world" where
  \<comment> \<open>a stand-in for the absent tree lister: with \<open>FetchKeys\<close> the secret at the root with its
      history, without it the bare paths beneath the root\<close>
  "mem_ConstructSecrets root opts w =
     (let found = (if FetchKeys opts then filter (\<lambda>e. fst e = root) (store w)
                   else filter (\<lambda>e. take (length root + 1) (fst e) = root @ ''/'') (store w));
          w1 = logc (CallList root) w
      in if found = [] then (Inl (NewSecretNotFoundError root), w1)
         else (Inr (map (\<lambda>e. \<lparr>Path = fst e,
                                Versions = (if FetchKeys opts then map mem_version (snd e) else [])\<rparr>)
                      found), w1))"

fun mem_replay :: "'s vault \<Rightarrow> string \<Rightarrow> SecretVersion list \<Rightarrow> 's world \<Rightarrow> error option \<times> 's world" where
  "mem_replay V dst [] w = (None, w)"
| "mem_replay V dst (v # vs) w =
     (if State v = SecretStateAlive then
        (case client_Set V dst (Data v) w of
           (Some err, w1) \<Rightarrow> (Some (KVError err), w1)
         | (None, w1) \<Rightarrow> mem_replay V dst vs w1)
      else mem_replay V dst vs w)"

definition mem_kv :: "mem vault" where
  "mem_kv =
     \<lparr>kv_Get = mem_Get, kv_List = mem_List, kv_Versions = mem_Versions,
      kv_MountVersion = (\<lambda>p st. Inr 2), kv_MountPath = (\<lambda>p st. Inr ''secret''),
      kv_Set = mem_Set, kv_Delete = mem_Delete, kv_Destroy = mem_Destroy,
      kv_DestroyAll = mem_DestroyAll,
      ParsePath = ParsePath_spec, Canonicalize = Canonicalize_spec,
      ConstructSecrets = mem_ConstructSecrets, Paths = map Path,
      EntryCopy = (\<lambda>e dst opts w. (None, w))\<rparr>"

definition mem_vault :: "mem vault" where
  \<comment> \<open>the stand-in for the history replay writes the living versions in order\<close>
  "mem_vault = mem_kv\<lparr>EntryCopy := (\<lambda>e dst opts. mem_replay mem_kv dst (Versions e))\<rparr>"

definition alive :: "nat \<Rightarrow> KVVersion" where
  "alive n = \<lparr>Version = n, Deleted = False, Destroyed = False\<rparr>"

definition world0 :: "mem \<Rightarrow> mem world" where
  "world0 st = \<lparr>store = st, calls = [], stderr = []\<rparr>"

section \<open>Notions used in the statements, and example stores\<close>

definition contiguous :: "KVVersion list \<Rightarrow> bool" where
  \<comment> \<open>the retained versions are numbered consecutively, oldest first\<close>
  "contiguous vs = (\<forall>i < length vs. Version (vs ! i) = Version (vs ! 0) + i)"

definition verdict :: "string \<Rightarrow> verifyOpts \<Rightarrow> KVVersion \<Rightarrow> error option" where
  \<comment> \<open>the check of one located record: destroyed, deleted while a living one is required, or fine\<close>
  "verdict p opts r =
     (if Destroyed r then Some (destroyedErr p)
      else if ReqState opts = verifyStateAlive \<and> Deleted r then Some (deletedErr p)
      else None)"

definition targets :: "nat \<Rightarrow> KVVersion list \<Rightarrow> nat list" where
  \<comment> \<open>the target set of a destroy: the explicit version if given, else the latest one\<close>
  "targets version vs = (if version \<noteq> 0 then [version] else [Version (last vs)])"

definition reads_only :: "'s world \<Rightarrow> 's world \<Rightarrow> bool" where
  \<comment> \<open>from the first world to the second only read requests were sent: the store and the
      standard error are the same\<close>
  "reads_only w w' =
     (store w' = store w \<and> stderr w' = stderr w \<and>
      (\<exists>cs. calls w' = calls w @ cs \<and> list_all (\<lambda>c. \<not> mutating c) cs))"

fun is_Set :: "call \<Rightarrow> bool" where
  "is_Set (CallSet _ _) = True"
| "is_Set _ = False"

definition sets_nothing :: "'s world \<Rightarrow> 's world \<Rightarrow> bool" where
  \<comment> \<open>from the first world to the second no set request was sent\<close>
  "sets_nothing w w' = (\<exists>cs. calls w' = calls w @ cs \<and> list_all (\<lambda>c. \<not> is_Set c) cs)"

definition stA :: mem where
  "stA = [(''secret/a'', [(alive 1, [(''k'', JString ''1''), (''j'', JString ''2'')]),
                          (alive 2, [(''k'', JString ''3''), (''j'', JString ''4'')])]),
          (''secret/b'', [(alive 1, [(''x'', JString ''y'')])])]"

definition stB :: mem where
  "stB = [(''secret/a'', [(alive 1, [(''k'', JString ''1''), (''j'', JOther ''2'')])])]"

definition vsV :: "KVVersion list" where
  "vsV = [\<lparr>Version = 3, Deleted = False, Destroyed = False\<rparr>,
          \<lparr>Version = 4, Deleted = True, Destroyed = False\<rparr>,
          \<lparr>Version = 5, Deleted = False, Destroyed = True\<rparr>]"

definition stV :: mem where
  "stV = [(''secret/v'',
           [(\<lparr>Version = 3, Deleted = False, Destroyed = False\<rparr>, [(''k'', JString ''a'')]),
            (\<lparr>Version = 4, Deleted = True, Destroyed = False\<rparr>, [(''k'', JString ''b'')]),
            (\<lparr>Version = 5, Deleted = False, Destroyed = True\<rparr>, [])])]"

definition wantAlive :: verifyOpts where
  "wantAlive = \<lparr>AnyVersion = False, ReqState = verifyStateAlive\<rparr>"

definition vsW :: "KVVersion list" where
  "vsW = [\<lparr>Version = 1, Deleted = False, Destroyed = True\<rparr>,
          \<lparr>Version = 2, Deleted = False, Destroyed = False\<rparr>]"

definition vsU :: "KVVersion list" where
  "vsU = [\<lparr>Version = 1, Deleted = False, Destroyed = False\<rparr>,
          \<lparr>Version = 2, Deleted = False, Destroyed = False\<rparr>]"

definition stW :: mem where
  "stW = [(''secret/w'',
           [(\<lparr>Version = 1, Deleted = False, Destroyed = True\<rparr>, []),
            (\<lparr>Version = 2, Deleted = False, Destroyed = False\<rparr>, [(''k'', JString ''b'')])]),
          (''secret/u'',
           [(\<lparr>Version = 1, Deleted = False, Destroyed = False\<rparr>, [(''k'', JString ''a'')]),
            (\<lparr>Version = 2, Deleted = False, Destroyed = False\<rparr>, [(''k'', JString ''b'')])])]"

definition oneVersion :: SecretEntry where
  "oneVersion = \<lparr>Path = ''secret/a'',
     Versions = [\<lparr>Data = [(''k'', ''v'')], Number = 1, State = SecretStateAlive\<rparr>]\<rparr>"

definition twoVersions :: SecretEntry where
  "twoVersions = \<lparr>Path = ''secret/b'',
     Versions = [\<lparr>Data = [(''k'', ''v'')], Number = 1, State = SecretStateAlive\<rparr>,
                 \<lparr>Data = [(''k'', ''w'')], Number = 2, State = SecretStateAlive\<rparr>]\<rparr>"

definition exportOpts0 :: ExportOpts where
  "exportOpts0 = \<lparr>ExpDeleted = False, ExpShallow = False\<rparr>"

definition softDelete :: DeleteOpts where
  "softDelete = \<lparr>Destroy = False, All = False\<rparr>"

definition skipOpts :: MoveCopyOpts where
  "skipOpts = \<lparr>SkipIfExists = True, Quiet = False, Deep = False, DeletedVersions = False\<rparr>"


definition deepOpts :: MoveCopyOpts where
  "deepOpts = \<lparr>SkipIfExists = False, Quiet = False, Deep = True, DeletedVersions = True\<rparr>"


definition denying_vault :: "mem vault" where
  \<comment> \<open>the in-memory vault behind a policy that refuses destroy-all\<close>
  "denying_vault = mem_vault\<lparr>kv_DestroyAll := (\<lambda>p st. (Some (ErrKV ''403 permission denied''), st))\<rparr>"


definition destroyOpts :: DeleteOpts where
  "destroyOpts = \<lparr>Destroy = True, All = False\<rparr>"

definition stD :: mem where
  "stD = [(''secret/a'',
           [(\<lparr>Version = 1, Deleted = False, Destroyed = False\<rparr>,
             [(''k'', JString ''1''), (''j'', JString ''2'')]),
            (\<lparr>Version = 2, Deleted = True, Destroyed = False\<rparr>,
             [(''k'', JString ''3''), (''j'', JString ''4'')])])]"

definition stG :: mem where
  "stG = [(''secret/a'',
           [(alive 1, [(''k'', JString ''1'')]),
            (alive 2, [(''k'', JString ''3''), (''m'', JString ''4'')])])]"

definition stE :: mem where
  "stE = [(''secret/f'', [(alive 1, [(''oo'', JString ''1''), (''x'', JString ''2'')])]),
          (''secret/f:oo'', [(alive 1, [(''k'', JString ''v''), (''j'', JString ''w'')])])]"

definition escaped_path :: string where
  \<comment> \<open>the address of the secret named \<open>secret/f:oo\<close>, its colon escaped\<close>
  "escaped_path = ''secret/f'' @ [backslash] @ '':oo''"

section \<open>Reading one key\<close>

lemma stringify_total: "\<exists>s. stringify r acc = Inr s"
  by (induction r acc rule: stringify.induct) (auto simp: json_Marshal_def split: jval.splits)

lemma stringify_single:
  "stringify [(k, v)] [] = Inr [(k, case v of JString s \<Rightarrow> s | JOther j \<Rightarrow> j)]"
  by (cases v) (simp_all add: json_Marshal_def)

text \<open>
  Claim C9.  For a key-qualified address whose snapshot the backend returns, \<open>Read\<close> fails with
  a KeyNotFound error when the requested key is absent from that snapshot, and otherwise returns
  a secret holding exactly the requested key (a value that is not a string as its compact JSON
  text): no other key of the snapshot is in the result.
\<close>

theorem Read_key_only:
  assumes "ParsePath V p = (path, key, version)" and "key \<noteq> []"
    and "kv_Get V path version (store w) = Inr raw0"
  shows "(map_of raw0 key = None \<longrightarrow> fst (Read V p w) = Inl (NewKeyNotFoundError path key)) \<and>
         (\<forall>val. map_of raw0 key = Some val \<longrightarrow>
            fst (Read V p w) = Inr [(key, case val of JString s \<Rightarrow> s | JOther j \<Rightarrow> j)])"
  using assms
  by (auto simp: Read_def client_Get_def NewSecret_def stringify_single)

theorem Read_key_only_witness:
  "fst (Read mem_vault ''secret/a:j'' (world0 stB)) = Inr [(''j'', ''2'')] \<and>
   fst (Read mem_vault ''secret/a:zz'' (world0 stB)) = Inl (NewKeyNotFoundError ''secret/a'' ''zz'')"
proof -
  have p1: "ParsePath mem_vault ''secret/a:j'' = (''secret/a'', ''j'', 0)"
    by (simp add: mem_vault_def mem_kv_def ParsePath_spec_def split_version_def backslash_def)
  have p2: "ParsePath mem_vault ''secret/a:zz'' = (''secret/a'', ''zz'', 0)"
    by (simp add: mem_vault_def mem_kv_def ParsePath_spec_def split_version_def backslash_def)
  have g: "kv_Get mem_vault ''secret/a'' 0 (store (world0 stB)) = Inr [(''k'', JString ''1''), (''j'', JOther ''2'')]"
    by (simp add: mem_vault_def mem_kv_def mem_Get_def world0_def stB_def mem_pick_def alive_def)
  show ?thesis
    using Read_key_only [OF p1 _ g] Read_key_only [OF p2 _ g] by simp
qed

section \<open>Resolving the version to verify\<close>

lemma contiguous_find:
  assumes "contiguous vs" and "i < length vs"
  shows "find (\<lambda>r. Version r = Version (vs ! 0) + i) vs = Some (vs ! i)"
proof -
  have "\<forall>j<i. Version (vs ! j) \<noteq> Version (vs ! 0) + i"
    using assms by (auto simp: contiguous_def)
  moreover have "Version (vs ! i) = Version (vs ! 0) + i"
    using assms by (auto simp: contiguous_def)
  ultimately show ?thesis
    using assms(2) by (auto simp: find_Some_iff)
qed

lemma contiguous_nth:
  "contiguous vs \<Longrightarrow> i < length vs \<Longrightarrow> Version (vs ! i) = Version (vs ! 0) + i"
  by (simp add: contiguous_def)

lemma find_latest:
  assumes "contiguous vs" and "vs \<noteq> []"
  shows "find (\<lambda>r. Version r = Version (last vs)) vs = Some (last vs)"
proof -
  let ?n = "length vs - 1"
  have n: "?n < length vs" using assms(2) by simp
  have l: "last vs = vs ! ?n" using assms(2) by (rule last_conv_nth)
  have "Version (vs ! ?n) = Version (vs ! 0) + ?n" by (rule contiguous_nth [OF assms(1) n])
  moreover have "find (\<lambda>r. Version r = Version (vs ! 0) + ?n) vs = Some (vs ! ?n)"
    by (rule contiguous_find [OF assms(1) n])
  ultimately show ?thesis unfolding l by simp
qed

lemma find_explicit:
  assumes "contiguous vs" and "vs \<noteq> []"
    and "Version (vs ! 0) \<le> version" and "version \<le> Version (last vs)"
  shows "version - Version (vs ! 0) < length vs \<and>
         find (\<lambda>r. Version r = version) vs = Some (vs ! (version - Version (vs ! 0)))"
proof -
  let ?i = "version - Version (vs ! 0)"
  let ?n = "length vs - 1"
  have n: "?n < length vs" using assms(2) by simp
  have l: "last vs = vs ! ?n" using assms(2) by (rule last_conv_nth)
  have "Version (last vs) = Version (vs ! 0) + ?n"
    unfolding l by (rule contiguous_nth [OF assms(1) n])
  with assms(3,4) n have i: "?i < length vs" by arith
  have v: "Version (vs ! 0) + ?i = version" using assms(3) by simp
  have "find (\<lambda>r. Version r = Version (vs ! 0) + ?i) vs = Some (vs ! ?i)"
    by (rule contiguous_find [OF assms(1) i])
  then show ?thesis using i unfolding v by simp
qed

lemma verifySecretState_v2:
  assumes "ParsePath V p = (secret, key, version)"
    and "kv_MountVersion V (Canonicalize V secret) (store w) = Inr 2"
    and "kv_Versions V (Canonicalize V secret) (store w) = Inr vs"
  shows "fst (verifySecretState V p opts w) = checkVersions p version opts vs"
  using assms
  by (simp add: verifySecretState_def MountVersion_def client_MountVersion_def
      Versions_of_def client_Versions_def logc_def Let_def)

lemma checkVersions_below:
  assumes "vs \<noteq> []" and "\<not> AnyVersion opts" and "version \<noteq> 0" and "version < Version (hd vs)"
  shows "checkVersions p version opts vs = Some (destroyedErr p)"
proof -
  obtain v0 rest where vs: "vs = v0 # rest" using assms(1) by (cases vs) auto
  show ?thesis using assms(2-4) unfolding vs
    by (simp add: checkVersions_def pickVersion_def go_index_def)
qed

lemma checkVersions_above:
  assumes "vs \<noteq> []" and "\<not> AnyVersion opts" and "Version (hd vs) \<le> Version (last vs)"
    and "version > Version (last vs)"
  shows "checkVersions p version opts vs = Some (notYetErr p)"
proof -
  obtain v0 rest where vs: "vs = v0 # rest" using assms(1) by (cases vs) auto
  have "version \<noteq> 0" using assms(4) by simp
  moreover have "\<not> version < Version v0" using assms(3,4) unfolding vs by simp
  ultimately show ?thesis using assms(2,4) unfolding vs
    by (simp add: checkVersions_def pickVersion_def go_index_def go_last_def)
qed

lemma checkVersions_within:
  assumes "vs \<noteq> []" and "contiguous vs" and "\<not> AnyVersion opts" and "version \<noteq> 0"
    and "Version (hd vs) \<le> version" and "version \<le> Version (last vs)"
  shows "\<exists>r. find (\<lambda>r. Version r = version) vs = Some r \<and>
             checkVersions p version opts vs = verdict p opts r"
proof -
  have hd: "hd vs = vs ! 0" using assms(1) by (rule hd_conv_nth)
  have le: "Version (vs ! 0) \<le> version" using assms(5) unfolding hd .
  note f = find_explicit [OF assms(2,1) le assms(6)]
  have "go_index vs 0 = Inr (vs ! 0)" using assms(1) by (simp add: go_index_def)
  moreover have "go_last vs = Inr (last vs)" using assms(1) by (simp add: go_last_def)
  moreover have "go_index vs (version - Version (vs ! 0)) = Inr (vs ! (version - Version (vs ! 0)))"
    using f by (simp add: go_index_def)
  ultimately have "pickVersion p version vs = Inr (vs ! (version - Version (vs ! 0)))"
    using assms(4,6) le by (simp add: pickVersion_def)
  then have "checkVersions p version opts vs = verdict p opts (vs ! (version - Version (vs ! 0)))"
    using assms(3) by (simp add: checkVersions_def verdict_def)
  with f show ?thesis by blast
qed

lemma checkVersions_latest:
  assumes "vs \<noteq> []" and "\<not> AnyVersion opts"
  shows "checkVersions p 0 opts vs = verdict p opts (last vs)"
  using assms by (simp add: checkVersions_def pickVersion_def go_last_def verdict_def)

lemma contiguous_hd_le_last:
  assumes "contiguous vs" and "vs \<noteq> []"
  shows "Version (hd vs) \<le> Version (last vs)"
proof -
  have n: "length vs - 1 < length vs" using assms(2) by simp
  have l: "last vs = vs ! (length vs - 1)" using assms(2) by (rule last_conv_nth)
  have h: "hd vs = vs ! 0" using assms(2) by (rule hd_conv_nth)
  have "Version (vs ! (length vs - 1)) = Version (vs ! 0) + (length vs - 1)"
    by (rule contiguous_nth [OF assms(1) n])
  then show ?thesis unfolding l h by simp
qed

text \<open>
  Claim C3.  On a version-2 mount whose retained version records are non-empty and numbered
  consecutively, \<open>verifySecretState\<close> without \<open>AnyVersion\<close>: an explicit version below the
  oldest retained number is reported destroyed; one above the newest does not yet exist;
  otherwise the record with that number is located and checked (destroyed: error; deleted
  while a living version is required: the deleted error; else success); no version given
  means the newest record, checked the same way.
\<close>

theorem verifySecretState_resolution:
  assumes "ParsePath V p = (secret, key, version)"
    and "kv_MountVersion V (Canonicalize V secret) (store w) = Inr 2"
    and "kv_Versions V (Canonicalize V secret) (store w) = Inr vs"
    and "vs \<noteq> []" and "contiguous vs" and "\<not> AnyVersion opts"
  shows "(version \<noteq> 0 \<and> version < Version (hd vs) \<longrightarrow>
            fst (verifySecretState V p opts w) = Some (destroyedErr p)) \<and>
         (version > Version (last vs) \<longrightarrow>
            fst (verifySecretState V p opts w) = Some (notYetErr p)) \<and>
         (version \<noteq> 0 \<and> Version (hd vs) \<le> version \<and> version \<le> Version (last vs) \<longrightarrow>
            (\<exists>r. find (\<lambda>r. Version r = version) vs = Some r \<and>
                 fst (verifySecretState V p opts w) = verdict p opts r)) \<and>
         (version = 0 \<longrightarrow>
            find (\<lambda>r. Version r = Version (last vs)) vs = Some (last vs) \<and>
            fst (verifySecretState V p opts w) = verdict p opts (last vs))"
proof -
  have eq: "fst (verifySecretState V p opts w) = checkVersions p version opts vs"
    by (rule verifySecretState_v2 [OF assms(1-3)])
  note le = contiguous_hd_le_last [OF assms(5,4)]
  show ?thesis
    unfolding eq
    using checkVersions_below [OF assms(4,6), of version p]
      checkVersions_above [OF assms(4,6) le, of version p]
      checkVersions_within [OF assms(4,5,6), of version p]
      checkVersions_latest [OF assms(4,6), of p]
      find_latest [OF assms(5,4)]
    by blast
qed

theorem verifySecretState_resolution_witness:
  "fst (verifySecretState mem_vault ''secret/v^4'' wantAlive (world0 stV)) = Some (deletedErr ''secret/v^4'') \<and>
   fst (verifySecretState mem_vault ''secret/v^5'' wantAlive (world0 stV)) = Some (destroyedErr ''secret/v^5'') \<and>
   fst (verifySecretState mem_vault ''secret/v^2'' wantAlive (world0 stV)) = Some (destroyedErr ''secret/v^2'') \<and>
   fst (verifySecretState mem_vault ''secret/v^9'' wantAlive (world0 stV)) = Some (notYetErr ''secret/v^9'') \<and>
   fst (verifySecretState mem_vault ''secret/v^3'' wantAlive (world0 stV)) = None"
proof -
  have p: "ParsePath mem_vault ''secret/v^4'' = (''secret/v'', [], 4)"
          "ParsePath mem_vault ''secret/v^5'' = (''secret/v'', [], 5)"
          "ParsePath mem_vault ''secret/v^2'' = (''secret/v'', [], 2)"
          "ParsePath mem_vault ''secret/v^9'' = (''secret/v'', [], 9)"
          "ParsePath mem_vault ''secret/v^3'' = (''secret/v'', [], 3)"
    by code_simp+
  have m: "kv_MountVersion mem_vault (Canonicalize mem_vault ''secret/v'') (store (world0 stV)) = Inr 2"
    by code_simp
  have v: "kv_Versions mem_vault (Canonicalize mem_vault ''secret/v'') (store (world0 stV)) = Inr vsV"
    by code_simp
  have ne: "vsV \<noteq> []" by (simp add: vsV_def)
  have c: "contiguous vsV"
    by (simp add: contiguous_def vsV_def nth_Cons' less_Suc_eq numeral_3_eq_3)
  have a: "\<not> AnyVersion wantAlive" by (simp add: wantAlive_def)
  note t = verifySecretState_resolution [OF _ m v ne c a]
  show ?thesis
    using t [OF p(1)] t [OF p(2)] t [OF p(3)] t [OF p(4)] t [OF p(5)]
    by (simp add: vsV_def verdict_def wantAlive_def)
qed

section \<open>Destroying versions of a whole secret\<close>

lemma advance_single:
  "advance [t] 0 ver = (if t < ver then 1 else 0)"
  "advance [t] (Suc 0) ver = Suc 0"
  by (simp_all add: advance.simps)

lemma shouldNuke_past:
  "shouldNuke vs [t] (Suc 0) = (\<forall>v\<in>set vs. Destroyed v)"
  by (induction vs) (auto simp: advance_single Let_def)

lemma shouldNuke_single:
  "sorted (map Version vs) \<Longrightarrow>
   shouldNuke vs [t] 0 = (\<forall>v\<in>set vs. \<not> Destroyed v \<longrightarrow> Version v = t)"
proof (induction vs)
  case Nil
  then show ?case by simp
next
  case (Cons a rest)
  show ?case
  proof (cases "t < Version a")
    case True
    have "\<forall>v\<in>set rest. Version v \<noteq> t" using Cons.prems True by auto
    then show ?thesis using True by (auto simp: advance_single shouldNuke_past Let_def)
  next
    case False
    then show ?thesis using Cons by (auto simp: advance_single Let_def)
  qed
qed

text \<open>
  A \<open>Delete\<close> of an address without a key, once the state verification has passed, is
  \<open>deleteEntireSecret\<close> of the canonical address (the guard has nothing to check).
\<close>

lemma Delete_whole_secret:
  assumes "\<not> PathHasKey V (Canonicalize V p)"
    and "verifySecretState V (Canonicalize V p)
           \<lparr>AnyVersion = All opts,
            ReqState = (if Destroy opts then verifyStateAliveOrDeleted else verifyStateAlive)\<rparr> w
         = (None, w1)"
  shows "Delete V p opts w = deleteEntireSecret V (Canonicalize V p) (Destroy opts) (All opts) w1"
proof -
  have "canSemanticallyDelete V (Canonicalize V p) w1 = (None, w1)"
    using assms(1) by (auto simp: canSemanticallyDelete_def PathHasKey_def split: prod.splits)
  then show ?thesis
    using assms by (simp add: Delete.simps Let_def)
qed

text \<open>
  \<open>deleteEntireSecret\<close> with \<open>destroy\<close> and without \<open>all\<close>, on a non-empty ascending list of
  retained versions: the target set is the explicit version if given, else the latest version;
  if every retained version that is not already destroyed is in the target set, the whole
  history is removed by a destroy-all, otherwise exactly the target set is destroyed.
\<close>


lemma deleteEntireSecret_destroy:
  assumes "ParsePath V p = (secret, key, version)"
    and "kv_Versions V (Canonicalize V secret) (store w) = Inr vs"
    and "vs \<noteq> []" and "sorted (map Version vs)"
  shows "deleteEntireSecret V p True False w =
           (let w1 = logc (CallVersions (Canonicalize V secret)) w in
            if \<forall>v\<in>set vs. \<not> Destroyed v \<longrightarrow> Version v \<in> set (targets version vs)
            then (case client_DestroyAll V secret w1 of (e, w2) \<Rightarrow> (kverr_opt e, w2))
            else (case client_Destroy V secret (targets version vs) w1 of
                    (e, w2) \<Rightarrow> (kverr_opt e, w2)))"
proof -
  have n: "shouldNuke vs (targets version vs) 0 =
           (\<forall>v\<in>set vs. \<not> Destroyed v \<longrightarrow> Version v \<in> set (targets version vs))"
    using shouldNuke_single [OF assms(4)] by (simp add: targets_def)
  have v: "Versions_of V secret w = (Inr vs, logc (CallVersions (Canonicalize V secret)) w)"
    using assms(2) by (simp add: Versions_of_def client_Versions_def Let_def)
  have t: "(if (if version \<noteq> 0 then [version] else []) = []
            then (case go_last vs of Inl p \<Rightarrow> Inl p | Inr vl \<Rightarrow> Inr [Version vl])
            else Inr (if version \<noteq> 0 then [version] else [])) = Inr (targets version vs)"
    using assms(3) by (simp add: targets_def go_last_def)
  show ?thesis
    unfolding deleteEntireSecret_def assms(1) Let_def
    by (simp only: prod.case v t n sum.case simp_thms if_False if_True)
qed


section \<open>The export format\<close>

lemma v1Export_ok:
  "\<forall>s\<in>set secrets. Versions s \<noteq> [] \<Longrightarrow> \<exists>m. v1Export secrets acc = Inr m"
  by (induction secrets arbitrary: acc) (auto simp: go_index_def)

lemma v2Export_loop_ok:
  "\<forall>s\<in>set secrets. Versions s \<noteq> [] \<Longrightarrow> ExportVersion e = 2 \<Longrightarrow>
   \<exists>e' w'. v2Export_loop V opts secrets e w = (Inr e', w') \<and> ExportVersion e' = 2"
proof (induction secrets arbitrary: e w)
  case Nil
  then show ?case by simp
next
  case (Cons s rest)
  from Cons.prems have ne: "Versions s \<noteq> []" and r: "\<forall>s\<in>set rest. Versions s \<noteq> []" by auto
  show ?case
  proof (cases "length (Versions s) > 1")
    case True
    obtain r0 w1 where m: "client_MountPath V (Path s) w = (r0, w1)" by (cases "client_MountPath V (Path s) w")
    show ?thesis
      using True ne m Cons.IH [OF r] Cons.prems(2)
      by (simp add: go_index_def Let_def)
  next
    case False
    then show ?thesis
      using ne Cons.IH [OF r] Cons.prems(2)
      by (simp add: go_index_def Let_def)
  qed
qed

text \<open>
  Claim C6.  For fetched secrets that each have at least one version, the export is the legacy
  map from path to key/value data if and only if every entry has exactly one version; as soon
  as one entry has two or more versions it is the one-element array holding the envelope with
  export version 2.
\<close>

theorem Export_format:
  assumes "\<forall>s\<in>set secrets. Versions s \<noteq> []"
  shows "((\<exists>m. fst (Export V opts secrets w) = Inr (ExportLegacy m)) \<longleftrightarrow>
            (\<forall>s\<in>set secrets. length (Versions s) = 1)) \<and>
         ((\<exists>s\<in>set secrets. length (Versions s) \<ge> 2) \<longrightarrow>
            (\<exists>e. fst (Export V opts secrets w) = Inr (ExportEnvelope [e]) \<and> ExportVersion e = 2))"
proof -
  have must: "mustV2Export secrets \<longleftrightarrow> \<not> (\<forall>s\<in>set secrets. length (Versions s) = 1)"
  proof -
    have "\<And>s. s \<in> set secrets \<Longrightarrow> (length (Versions s) > 1) = (length (Versions s) \<noteq> 1)"
      using assms by (metis length_0_conv less_one linorder_neqE_nat)
    then show ?thesis by (auto simp: mustV2Export_def list_ex_iff)
  qed
  have "\<And>n::nat. (2 \<le> n) = (1 < n)" by arith
  then have two: "(\<exists>s\<in>set secrets. length (Versions s) \<ge> 2) \<longleftrightarrow> mustV2Export secrets"
    by (simp add: mustV2Export_def list_ex_iff)
  show ?thesis
  proof (cases "mustV2Export secrets")
    case True
    then have ne: "secrets \<noteq> []" by (auto simp: mustV2Export_def)
    obtain e' w' where "v2Export_loop V opts secrets
        \<lparr>ExportVersion = 2, xData = [], RequiresVersioning = []\<rparr> w = (Inr e', w')" "ExportVersion e' = 2"
      using v2Export_loop_ok [OF assms, of "\<lparr>ExportVersion = 2, xData = [], RequiresVersioning = []\<rparr>" V opts w]
      by auto
    then have "fst (Export V opts secrets w) = Inr (ExportEnvelope [e'])" "ExportVersion e' = 2"
      using True ne by (simp_all add: Export_def v2Export_def)
    then show ?thesis using True must two by auto
  next
    case False
    obtain m where "v1Export secrets [] = Inr m" using v1Export_ok [OF assms] by blast
    then have "fst (Export V opts secrets w) = Inr (ExportLegacy m)"
      using False by (simp add: Export_def)
    then show ?thesis using False must two by auto
  qed
qed

theorem Export_format_witness:
  "(\<exists>m. fst (Export mem_vault exportOpts0 [oneVersion] (world0 [])) = Inr (ExportLegacy m)) \<and>
   (\<exists>e. fst (Export mem_vault exportOpts0 [oneVersion, twoVersions] (world0 [])) = Inr (ExportEnvelope [e])
        \<and> ExportVersion e = 2)"
proof -
  have a: "\<forall>s\<in>set [oneVersion]. Versions s \<noteq> []" by (simp add: oneVersion_def)
  have b: "\<forall>s\<in>set [oneVersion, twoVersions]. Versions s \<noteq> []"
    by (simp add: oneVersion_def twoVersions_def)
  show ?thesis
    using Export_format [OF a, of mem_vault exportOpts0 "world0 []"]
      Export_format [OF b, of mem_vault exportOpts0 "world0 []"]
    by (simp add: oneVersion_def twoVersions_def)
qed

section \<open>Steps that only read\<close>

lemma pair_of_fst: "fst x = a \<Longrightarrow> x = (a, snd x)"
  by (cases x) simp

lemma reads_only_refl: "reads_only w w"
  by (simp add: reads_only_def)

lemma reads_only_trans: "reads_only a b \<Longrightarrow> reads_only b c \<Longrightarrow> reads_only a c"
  by (auto simp: reads_only_def)

lemma reads_only_logc: "\<not> mutating c \<Longrightarrow> reads_only w (logc c w)"
  by (simp add: reads_only_def logc_def)

lemma reads_only_store: "reads_only w w' \<Longrightarrow> store w' = store w"
  by (simp add: reads_only_def)

lemma stringify_not_Inl: "stringify r acc \<noteq> Inl e"
  using stringify_total [of r acc] by auto

lemma Read_reads: "reads_only w (snd (Read V p w))"
  by (auto simp: Read_def client_Get_def reads_only_logc split: prod.splits sum.splits option.splits)

lemma List_paths_reads: "reads_only w (snd (List_paths V p w))"
  by (auto simp: List_paths_def client_List_def Let_def reads_only_logc split: prod.splits sum.splits)

lemma Versions_of_reads: "reads_only w (snd (Versions_of V p w))"
  by (auto simp: Versions_of_def client_Versions_def Let_def reads_only_logc split: prod.splits sum.splits)

lemma MountVersion_reads: "reads_only w (snd (MountVersion V p w))"
  by (auto simp: MountVersion_def client_MountVersion_def reads_only_logc split: prod.splits sum.splits)

lemma errIfFolder_reads: "reads_only w (snd (errIfFolder V p m w))"
proof -
  obtain r w1 where l: "List_paths V (Canonicalize V p) w = (r, w1)"
    by (cases "List_paths V (Canonicalize V p) w")
  have "reads_only w w1" using List_paths_reads [of w V "Canonicalize V p"] l by simp
  then show ?thesis using l by (simp add: errIfFolder_def Let_def split: sum.splits)
qed

lemma errIfFolder_after:
  "reads_only w w1 \<Longrightarrow> errIfFolder V p m w1 = (r, x) \<Longrightarrow> reads_only w x"
  using errIfFolder_reads [of w1 V p m] reads_only_trans by fastforce

lemma verifySecretExists_reads: "reads_only w (snd (verifySecretExists V p w))"
proof -
  obtain r w1 where l: "Read V (Canonicalize V p) w = (r, w1)"
    by (cases "Read V (Canonicalize V p) w")
  have a: "reads_only w w1" using Read_reads [of w V "Canonicalize V p"] l by simp
  note b = errIfFolder_after [OF a]
  show ?thesis using l a b
    by (auto simp: verifySecretExists_def Let_def split: sum.splits prod.splits option.splits)
qed

lemma verifySecretState_reads: "reads_only w (snd (verifySecretState V p opts w))"
proof -
  obtain secret key version where pp: "ParsePath V p = (secret, key, version)"
    by (cases "ParsePath V p")
  obtain r w1 where m: "MountVersion V secret w = (r, w1)" by (cases "MountVersion V secret w")
  have a: "reads_only w w1" using MountVersion_reads [of w V secret] m by simp
  obtain r2 w2 where v: "Versions_of V secret w1 = (r2, w2)" by (cases "Versions_of V secret w1")
  have b: "reads_only w w2" using Versions_of_reads [of w1 V secret] v a reads_only_trans by fastforce
  note c = errIfFolder_after [OF b]
  have d: "reads_only w (snd (verifySecretExists V p w1))"
    using a verifySecretExists_reads [of w1 V p] reads_only_trans by fastforce
  show ?thesis using pp m v a b c d
    by (auto simp: verifySecretState_def split: sum.splits prod.splits option.splits)
qed

lemma canSemanticallyDelete_reads: "reads_only w (snd (canSemanticallyDelete V p w))"
proof -
  obtain secret key version where pp: "ParsePath V p = (secret, key, version)"
    by (cases "ParsePath V p")
  obtain r1 w1 where v: "Versions_of V secret w = (r1, w1)" by (cases "Versions_of V secret w")
  have a: "reads_only w w1" using Versions_of_reads [of w V secret] v by simp
  have b: "\<And>r x. Read V p w1 = (r, x) \<Longrightarrow> reads_only w x"
    using a Read_reads [of w1 V p] reads_only_trans by fastforce
  show ?thesis using pp v a b
    by (auto simp: canSemanticallyDelete_def reads_only_refl split: sum.splits prod.splits option.splits)
qed


section \<open>Destroying versions through Delete\<close>

text \<open>
  Claim C4, as amended.  A \<open>Delete\<close> of an address without a key, with \<open>destroy\<close> and
  without \<open>all\<close>, whose state verification passes (so the target version is within the
  retained range and is not destroyed), on a non-empty ascending list of retained versions: the
  target set is the explicit version if given, else the latest version; if every retained
  version that is not already destroyed is in the target set, the whole history is removed by a
  destroy-all, otherwise exactly the target set is destroyed.
\<close>

theorem Delete_destroy:
  assumes "Destroy opts" and "\<not> All opts"
    and "ParsePath V (Canonicalize V p) = (secret, [], version)"
    and "verifySecretState V (Canonicalize V p)
           \<lparr>AnyVersion = False, ReqState = verifyStateAliveOrDeleted\<rparr> w = (None, w1)"
    and "kv_Versions V (Canonicalize V secret) (store w) = Inr vs"
    and "vs \<noteq> []" and "sorted (map Version vs)"
  shows "Delete V p opts w =
           (let w2 = logc (CallVersions (Canonicalize V secret)) w1 in
            if \<forall>v\<in>set vs. \<not> Destroyed v \<longrightarrow> Version v \<in> set (targets version vs)
            then (case client_DestroyAll V secret w2 of (e, w3) \<Rightarrow> (kverr_opt e, w3))
            else (case client_Destroy V secret (targets version vs) w2 of
                    (e, w3) \<Rightarrow> (kverr_opt e, w3)))"
proof -
  have nk: "\<not> PathHasKey V (Canonicalize V p)"
    using assms(3) by (simp add: PathHasKey_def)
  have v: "verifySecretState V (Canonicalize V p)
             \<lparr>AnyVersion = All opts,
              ReqState = (if Destroy opts then verifyStateAliveOrDeleted else verifyStateAlive)\<rparr> w
           = (None, w1)"
    using assms(1,2,4) by simp
  have d: "Delete V p opts w = deleteEntireSecret V (Canonicalize V p) True False w1"
    using Delete_whole_secret [OF nk v] assms(1,2) by simp
  have "reads_only w w1"
    using verifySecretState_reads [of w V "Canonicalize V p"
        "\<lparr>AnyVersion = False, ReqState = verifyStateAliveOrDeleted\<rparr>"] assms(4) by simp
  then have st: "kv_Versions V (Canonicalize V secret) (store w1) = Inr vs"
    using assms(5) by (simp add: reads_only_store)
  show ?thesis
    unfolding d by (rule deleteEntireSecret_destroy [OF assms(3) st assms(6,7)])
qed

theorem Delete_destroy_witness:
  "filter mutating (calls (snd (Delete mem_vault ''secret/w'' destroyOpts (world0 stW))))
     = [CallDestroyAll ''secret/w''] \<and>
   filter mutating (calls (snd (Delete mem_vault ''secret/u'' destroyOpts (world0 stW))))
     = [CallDestroy ''secret/u'' [2]] \<and>
   filter mutating (calls (snd (Delete mem_vault ''secret/u^1'' destroyOpts (world0 stW))))
     = [CallDestroy ''secret/u'' [1]]"
proof -
  let ?vo = "\<lparr>AnyVersion = False, ReqState = verifyStateAliveOrDeleted\<rparr>"
  have o: "Destroy destroyOpts" "\<not> All destroyOpts" by (simp_all add: destroyOpts_def)
  have p: "ParsePath mem_vault (Canonicalize mem_vault ''secret/w'') = (''secret/w'', [], 0)"
          "ParsePath mem_vault (Canonicalize mem_vault ''secret/u'') = (''secret/u'', [], 0)"
          "ParsePath mem_vault (Canonicalize mem_vault ''secret/u^1'') = (''secret/u'', [], 1)"
    by code_simp+
  have f: "fst (verifySecretState mem_vault (Canonicalize mem_vault ''secret/w'') ?vo (world0 stW)) = None"
          "fst (verifySecretState mem_vault (Canonicalize mem_vault ''secret/u'') ?vo (world0 stW)) = None"
          "fst (verifySecretState mem_vault (Canonicalize mem_vault ''secret/u^1'') ?vo (world0 stW)) = None"
    by code_simp+
  have v: "kv_Versions mem_vault (Canonicalize mem_vault ''secret/w'') (store (world0 stW)) = Inr vsW"
          "kv_Versions mem_vault (Canonicalize mem_vault ''secret/u'') (store (world0 stW)) = Inr vsU"
    by code_simp+
  have ne: "vsW \<noteq> []" "vsU \<noteq> []" by (simp_all add: vsW_def vsU_def)
  have s: "sorted (map Version vsW)" "sorted (map Version vsU)" by (simp_all add: vsW_def vsU_def)
  have 1: "filter mutating (calls (snd (Delete mem_vault ''secret/w'' destroyOpts (world0 stW))))
     = [CallDestroyAll ''secret/w'']"
    apply (subst Delete_destroy [OF o p(1) pair_of_fst [OF f(1)] v(1) ne(1) s(1)])
    apply code_simp
    done
  have 2: "filter mutating (calls (snd (Delete mem_vault ''secret/u'' destroyOpts (world0 stW))))
     = [CallDestroy ''secret/u'' [2]]"
    apply (subst Delete_destroy [OF o p(2) pair_of_fst [OF f(2)] v(2) ne(2) s(2)])
    apply code_simp
    done
  have 3: "filter mutating (calls (snd (Delete mem_vault ''secret/u^1'' destroyOpts (world0 stW))))
     = [CallDestroy ''secret/u'' [1]]"
    apply (subst Delete_destroy [OF o p(3) pair_of_fst [OF f(3)] v(2) ne(2) s(2)])
    apply code_simp
    done
  show ?thesis using 1 2 3 by simp
qed

text \<open>
  The claim as stated, for every such \<open>Delete\<close>, fails where the verification that \<open>Delete\<close>
  runs first rejects the target: a version that does not exist yet, or one that is already
  destroyed while a living version remains.  The claim asks for a destroy of the target set
  there; \<open>Delete\<close> returns the verifier's error and sends no request that mutates.
\<close>

theorem Delete_destroy_unverified_counterexample:
  "kv_Versions mem_vault ''secret/u'' stW = Inr vsU \<and>
   list_ex (\<lambda>v. \<not> Destroyed v \<and> Version v \<notin> set (targets 9 vsU)) vsU \<and>
   fst (Delete mem_vault ''secret/u^9'' destroyOpts (world0 stW)) = Some (notYetErr ''secret/u^9'') \<and>
   filter mutating (calls (snd (Delete mem_vault ''secret/u^9'' destroyOpts (world0 stW)))) = [] \<and>
   kv_Versions mem_vault ''secret/w'' stW = Inr vsW \<and>
   list_ex (\<lambda>v. \<not> Destroyed v \<and> Version v \<notin> set (targets 1 vsW)) vsW \<and>
   fst (Delete mem_vault ''secret/w^1'' destroyOpts (world0 stW)) = Some (destroyedErr ''secret/w^1'') \<and>
   filter mutating (calls (snd (Delete mem_vault ''secret/w^1'' destroyOpts (world0 stW)))) = []"
  by code_simp


section \<open>The semantic-delete guard\<close>

text \<open>
  Reading a key-qualified address returns that one key, so the secret the guard inspects always
  has exactly one key, the requested one: the guard never returns its own error.
\<close>

lemma Read_key_shape:
  assumes "ParsePath V p = (path, key, version)" and "key \<noteq> []" and "Read V p w = (Inr s, w')"
  shows "length s = 1 \<and> Has s key"
proof -
  obtain raw0 where g: "kv_Get V path version (store w) = Inr raw0"
    using assms by (auto simp: Read_def client_Get_def split: sum.splits if_splits)
  obtain val where "map_of raw0 key = Some val"
    using assms g by (auto simp: Read_def client_Get_def split: option.splits)
  then have "fst (Read V p w) = Inr [(key, case val of JString s \<Rightarrow> s | JOther j \<Rightarrow> j)]"
    using assms g by (auto simp: Read_def client_Get_def NewSecret_def stringify_single)
  then show ?thesis using assms(3) by (auto simp: Has_def)
qed

lemma canSemanticallyDelete_never_ambiguous:
  "fst (canSemanticallyDelete V p w) \<noteq> Some ambiguousErr"
proof -
  obtain secret key version where pp: "ParsePath V p = (secret, key, version)"
    by (cases "ParsePath V p")
  have rk: "\<And>s w1 w2. key \<noteq> [] \<Longrightarrow> Read V p w1 = (Inr s, w2) \<Longrightarrow> length s = 1 \<and> Has s key"
    using Read_key_shape [OF pp] by blast
  have re: "\<And>e w1 w2. Read V p w1 = (Inl e, w2) \<Longrightarrow> e \<noteq> ambiguousErr"
    by (auto simp: Read_def client_Get_def ambiguousErr_def NewSecretNotFoundError_def
        NewKeyNotFoundError_def stringify_not_Inl split: prod.splits sum.splits if_splits option.splits)
  have ve: "\<And>e w1. Versions_of V secret w = (Inl e, w1) \<Longrightarrow> e \<noteq> ambiguousErr"
    by (auto simp: Versions_of_def client_Versions_def Let_def ambiguousErr_def
        NewSecretNotFoundError_def split: sum.splits if_splits)
  show ?thesis
    using pp rk re ve
    by (auto simp: canSemanticallyDelete_def go_last_def ambiguousErr_def
        split: sum.splits prod.splits if_splits)
qed


text \<open>
  Claim C2 says that deleting a key at a version that is not the latest one, from a snapshot
  with more than one key, is rejected with an ambiguity error and mutates nothing.  The code
  does not do that: whenever the addressed snapshot holds the key, the guard passes, however
  many keys the snapshot has.  At the concrete store below the delete then succeeds and writes
  a new version made from the latest snapshot.
\<close>

theorem canSemanticallyDelete_passes:
  assumes "ParsePath V p = (secret, key, version)" and "key \<noteq> []" and "version \<noteq> 0"
    and "kv_Versions V (Canonicalize V secret) (store w) = Inr vs"
    and "vs \<noteq> []" and "Version (last vs) \<noteq> version"
    and "kv_Get V secret version (store w) = Inr raw0"
    and "map_of raw0 key = Some val"
  shows "fst (canSemanticallyDelete V p w) = None"
proof -
  let ?w1 = "logc (CallVersions (Canonicalize V secret)) w"
  have v: "Versions_of V secret w = (Inr vs, ?w1)"
    using assms(4) by (simp add: Versions_of_def client_Versions_def Let_def)
  have st: "store ?w1 = store w" by (simp add: logc_def)
  obtain s w2 where rd: "Read V p ?w1 = (Inr s, w2)"
    using assms(1,2,7,8) st stringify_total [of "[(key, val)]" NewSecret]
    by (auto simp: Read_def client_Get_def)
  have "length s = 1 \<and> Has s key" by (rule Read_key_shape [OF assms(1,2) rd])
  then show ?thesis
    using assms(1,2,3,5,6) v rd by (simp add: canSemanticallyDelete_def go_last_def)
qed

theorem canSemanticallyDelete_passes_witness:
  "fst (canSemanticallyDelete mem_vault ''secret/a:k^1'' (world0 stA)) = None \<and>
   kv_Get mem_vault ''secret/a'' 1 stA = Inr [(''k'', JString ''1''), (''j'', JString ''2'')] \<and>
   fst (Delete mem_vault ''secret/a:k^1'' softDelete (world0 stA)) = None \<and>
   filter mutating (calls (snd (Delete mem_vault ''secret/a:k^1'' softDelete (world0 stA))))
     = [CallSet ''secret/a'' [(''j'', ''4'')]]"
proof -
  have p: "ParsePath mem_vault ''secret/a:k^1'' = (''secret/a'', ''k'', 1)" by code_simp
  have v: "kv_Versions mem_vault (Canonicalize mem_vault ''secret/a'') (store (world0 stA))
             = Inr [alive 1, alive 2]"
    by code_simp
  have l: "Version (last [alive 1, alive 2]) \<noteq> 1" by (simp add: alive_def)
  have g: "kv_Get mem_vault ''secret/a'' 1 (store (world0 stA))
             = Inr [(''k'', JString ''1''), (''j'', JString ''2'')]"
    by code_simp
  have m: "map_of [(''k'', JString ''1''), (''j'', JString ''2'')] ''k'' = Some (JString ''1'')" by simp
  have 1: "fst (canSemanticallyDelete mem_vault ''secret/a:k^1'' (world0 stA)) = None"
    using canSemanticallyDelete_passes [OF p _ _ v _ l g m] by simp
  have 2: "kv_Get mem_vault ''secret/a'' 1 stA = Inr [(''k'', JString ''1''), (''j'', JString ''2'')]"
    by code_simp
  have 3: "fst (Delete mem_vault ''secret/a:k^1'' softDelete (world0 stA)) = None" by code_simp
  have 4: "filter mutating (calls (snd (Delete mem_vault ''secret/a:k^1'' softDelete (world0 stA))))
     = [CallSet ''secret/a'' [(''j'', ''4'')]]"
    by code_simp
  show ?thesis using 1 2 3 4 by simp
qed


section \<open>Deleting one key\<close>

lemma Read_plain:
  assumes "ParsePath V secret = (secret, [], 0)" and "kv_Get V secret 0 (store w) = Inr raw0"
    and "stringify raw0 [] = Inr latest"
  shows "Read V secret w = (Inr latest, logc (CallGet secret 0) w)"
  using assms by (simp add: Read_def client_Get_def NewSecret_def)

lemma Write_nonempty:
  assumes "ParsePath V path = (path, [], 0)" and "s \<noteq> []"
  shows "Write V path s w =
           (case client_Set V path s w of
              (Some err, w1) \<Rightarrow>
                (if vaultkv_IsNotFound err then (Some (NewSecretNotFoundError path), w1)
                 else (Some (KVError err), w1))
            | (None, w1) \<Rightarrow> (None, w1))"
  using assms by (simp add: Write.simps Empty_def)

lemma deleteEntireSecret_soft:
  assumes "ParsePath V secret = (secret, [], 0)"
  shows "deleteEntireSecret V secret False False w =
           (case client_Delete V secret [] True w of (e, w1) \<Rightarrow> (kverr_opt e, w1))"
  using assms by (simp add: deleteEntireSecret_def)


text \<open>
  Claim C7, as amended.  A \<open>Delete\<close> of a key-qualified address that passes state
  verification and the guard, on a secret path that parses back to itself and whose latest
  snapshot the backend returns: if the key is absent from the latest snapshot a KeyNotFound
  error is returned after read requests only; if it is the only key the whole secret is deleted
  instead (one delete request, no set request); otherwise the latest snapshot without that key
  is written back.
\<close>


theorem Delete_key:
  assumes "ParsePath V (Canonicalize V p) = (secret, key, version)" and "key \<noteq> []"
    and "verifySecretState V (Canonicalize V p)
           \<lparr>AnyVersion = All opts,
            ReqState = (if Destroy opts then verifyStateAliveOrDeleted else verifyStateAlive)\<rparr> w
         = (None, w1)"
    and "canSemanticallyDelete V (Canonicalize V p) w1 = (None, w2)"
    and "ParsePath V secret = (secret, [], 0)"
    and "kv_Get V secret 0 (store w) = Inr raw0"
    and "stringify raw0 [] = Inr latest"
    and "w3 = logc (CallGet secret 0) w2"
  shows "reads_only w w3 \<and>
         (\<not> Has latest key \<longrightarrow>
            Delete V p opts w = (Some (NewKeyNotFoundError secret key), w3)) \<and>
         (Has latest key \<and> AList.delete key latest = [] \<longrightarrow>
            Delete V p opts w =
              (case client_Delete V secret [] True w3 of (e, w4) \<Rightarrow> (kverr_opt e, w4))) \<and>
         (Has latest key \<and> AList.delete key latest \<noteq> [] \<longrightarrow>
            Delete V p opts w =
              (case client_Set V secret (AList.delete key latest) w3 of
                 (Some err, w4) \<Rightarrow>
                   (if vaultkv_IsNotFound err then (Some (NewSecretNotFoundError secret), w4)
                    else (Some (KVError err), w4))
               | (None, w4) \<Rightarrow> (None, w4)))"
proof -
  let ?cp = "Canonicalize V p"
  have r1: "reads_only w w1"
    using verifySecretState_reads [of w V ?cp] assms(3) by (metis snd_conv)
  have r2: "reads_only w1 w2"
    using canSemanticallyDelete_reads [of w1 V ?cp] assms(4) by (metis snd_conv)
  have r12: "reads_only w w2" by (rule reads_only_trans [OF r1 r2])
  have st: "store w2 = store w" by (rule reads_only_store [OF r12])
  have rd: "Read V secret w2 = (Inr latest, w3)"
    using Read_plain [OF assms(5) _ assms(7), of w2] assms(6,8) st by simp
  have r3: "reads_only w w3"
    using reads_only_trans [OF r12 reads_only_logc, of "CallGet secret 0"] assms(8) by simp
  have hk: "PathHasKey V ?cp" using assms(1,2) by (simp add: PathHasKey_def)
  have d: "Delete V p opts w = deleteSpecificKey V ?cp w2"
    using assms(3,4) hk by (simp add: Delete.simps Let_def)
  have k: "deleteSpecificKey V ?cp w2 =
             (if \<not> Has latest key then (Some (NewKeyNotFoundError secret key), w3)
              else if Empty (AList.delete key latest) then deleteEntireSecret V secret False False w3
              else Write V secret (AList.delete key latest) w3)"
    using assms(1) rd by (simp add: deleteSpecificKey.simps Delete_key_def)
  show ?thesis
    using r3 d k deleteEntireSecret_soft [OF assms(5), of w3]
      Write_nonempty [OF assms(5), of "AList.delete key latest" w3]
    by (simp add: Empty_def)
qed

theorem Delete_key_witness:
  "filter mutating (calls (snd (Delete mem_vault ''secret/a:k'' softDelete (world0 stA))))
     = [CallSet ''secret/a'' [(''j'', ''4'')]] \<and>
   fst (Delete mem_vault ''secret/a:zz'' softDelete (world0 stA)) = Some (keyNotFound ''secret/a'' ''zz'') \<and>
   filter mutating (calls (snd (Delete mem_vault ''secret/a:zz'' softDelete (world0 stA)))) = [] \<and>
   filter mutating (calls (snd (Delete mem_vault ''secret/b:x'' softDelete (world0 stA))))
     = [CallDelete ''secret/b'' [] True]"
proof -
  let ?vo = "\<lparr>AnyVersion = All softDelete,
            ReqState = (if Destroy softDelete then verifyStateAliveOrDeleted else verifyStateAlive)\<rparr>"
  let ?w = "world0 stA"
  have plainA: "ParsePath mem_vault ''secret/a'' = (''secret/a'', [], 0)"
    and plainB: "ParsePath mem_vault ''secret/b'' = (''secret/b'', [], 0)"
    by code_simp+
  have getA: "kv_Get mem_vault ''secret/a'' 0 (store ?w) = Inr [(''k'', JString ''3''), (''j'', JString ''4'')]"
    and getB: "kv_Get mem_vault ''secret/b'' 0 (store ?w) = Inr [(''x'', JString ''y'')]"
    by code_simp+
  have strA: "stringify [(''k'', JString ''3''), (''j'', JString ''4'')] [] = Inr [(''k'', ''3''), (''j'', ''4'')]"
    and strB: "stringify [(''x'', JString ''y'')] [] = Inr [(''x'', ''y'')]"
    by simp_all
  { fix p :: string and secret key :: string
    assume pp: "ParsePath mem_vault (Canonicalize mem_vault p) = (secret, key, 0)"
    assume v: "fst (verifySecretState mem_vault (Canonicalize mem_vault p) ?vo ?w) = None"
    let ?w1 = "snd (verifySecretState mem_vault (Canonicalize mem_vault p) ?vo ?w)"
    have g: "canSemanticallyDelete mem_vault (Canonicalize mem_vault p) ?w1 = (None, ?w1)"
      using pp by (simp add: canSemanticallyDelete_def)
    note pair_of_fst [OF v] g
  } note prep = this
  have ppk: "ParsePath mem_vault (Canonicalize mem_vault ''secret/a:k'') = (''secret/a'', ''k'', 0)"
    and ppz: "ParsePath mem_vault (Canonicalize mem_vault ''secret/a:zz'') = (''secret/a'', ''zz'', 0)"
    and ppx: "ParsePath mem_vault (Canonicalize mem_vault ''secret/b:x'') = (''secret/b'', ''x'', 0)"
    by code_simp+
  have vk: "fst (verifySecretState mem_vault (Canonicalize mem_vault ''secret/a:k'') ?vo ?w) = None"
    and vz: "fst (verifySecretState mem_vault (Canonicalize mem_vault ''secret/a:zz'') ?vo ?w) = None"
    and vx: "fst (verifySecretState mem_vault (Canonicalize mem_vault ''secret/b:x'') ?vo ?w) = None"
    by code_simp+
  note tk = Delete_key [OF ppk _ prep [OF ppk vk] plainA getA strA refl]
  note tz = Delete_key [OF ppz _ prep [OF ppz vz] plainA getA strA refl]
  note tx = Delete_key [OF ppx _ prep [OF ppx vx] plainB getB strB refl]
  have ek: "Delete mem_vault ''secret/a:k'' softDelete ?w =
          (case client_Set mem_vault ''secret/a'' (AList.delete ''k'' [(''k'', ''3''), (''j'', ''4'')])
                  (logc (CallGet ''secret/a'' 0)
                     (snd (verifySecretState mem_vault (Canonicalize mem_vault ''secret/a:k'') ?vo ?w))) of
             (Some err, w4) \<Rightarrow>
               (if vaultkv_IsNotFound err then (Some (NewSecretNotFoundError ''secret/a''), w4)
                else (Some (KVError err), w4))
           | (None, w4) \<Rightarrow> (None, w4))"
    using tk by (simp add: Has_def)
  have ez: "Delete mem_vault ''secret/a:zz'' softDelete ?w =
          (Some (NewKeyNotFoundError ''secret/a'' ''zz''),
           logc (CallGet ''secret/a'' 0)
             (snd (verifySecretState mem_vault (Canonicalize mem_vault ''secret/a:zz'') ?vo ?w)))"
    using tz by (simp add: Has_def)
  have ex: "Delete mem_vault ''secret/b:x'' softDelete ?w =
          (case client_Delete mem_vault ''secret/b'' [] True
                  (logc (CallGet ''secret/b'' 0)
                     (snd (verifySecretState mem_vault (Canonicalize mem_vault ''secret/b:x'') ?vo ?w))) of
             (e, w4) \<Rightarrow> (kverr_opt e, w4))"
    using tx by (simp add: Has_def)
  have 1: "filter mutating (calls (snd (Delete mem_vault ''secret/a:k'' softDelete (world0 stA))))
     = [CallSet ''secret/a'' [(''j'', ''4'')]]"
    by (subst ek) code_simp
  have 2: "fst (Delete mem_vault ''secret/a:zz'' softDelete (world0 stA)) = Some (keyNotFound ''secret/a'' ''zz'')"
    by (subst ez) (simp add: NewKeyNotFoundError_def)
  have 3: "filter mutating (calls (snd (Delete mem_vault ''secret/a:zz'' softDelete (world0 stA)))) = []"
    by (subst ez) code_simp
  have 4: "filter mutating (calls (snd (Delete mem_vault ''secret/b:x'' softDelete (world0 stA))))
     = [CallDelete ''secret/b'' [] True]"
    by (subst ex) code_simp
  show ?thesis using 1 2 3 4 by simp
qed


text \<open>
  The claim as stated, for every key-qualified address that passes state verification, fails
  in three ways.  The address pins a living older version while the latest version is deleted:
  the latest snapshot cannot be read and \<open>Delete\<close> returns a SecretNotFound error.  The
  secret's name holds an escaped colon: the unescaped path is parsed again, another secret is
  read, and KeyNotFound is returned for a key the addressed secret has.  The key is absent from
  the pinned older version but present in the latest one: the guard's read returns KeyNotFound
  and the key stays in the latest snapshot.
\<close>

theorem Delete_key_counterexample:
  "fst (verifySecretState mem_vault ''secret/a:k^1'' wantAlive (world0 stD)) = None \<and>
   fst (Delete mem_vault ''secret/a:k^1'' softDelete (world0 stD))
     = Some (NewSecretNotFoundError ''secret/a'') \<and>
   filter mutating (calls (snd (Delete mem_vault ''secret/a:k^1'' softDelete (world0 stD)))) = [] \<and>
   fst (verifySecretState mem_vault (escaped_path @ '':k'') wantAlive (world0 stE)) = None \<and>
   kv_Get mem_vault ''secret/f:oo'' 0 stE = Inr [(''k'', JString ''v''), (''j'', JString ''w'')] \<and>
   fst (Delete mem_vault (escaped_path @ '':k'') softDelete (world0 stE))
     = Some (keyNotFound ''secret/f:oo'' ''k'') \<and>
   fst (verifySecretState mem_vault ''secret/a:m^1'' wantAlive (world0 stG)) = None \<and>
   kv_Get mem_vault ''secret/a'' 0 stG = Inr [(''k'', JString ''3''), (''m'', JString ''4'')] \<and>
   fst (Delete mem_vault ''secret/a:m^1'' softDelete (world0 stG))
     = Some (keyNotFound ''secret/a'' ''m'')"
  by code_simp


section \<open>Writing\<close>

lemma is_Set_mutating: "is_Set c \<Longrightarrow> mutating c"
  by (cases c) auto

lemma sets_nothing_refl: "sets_nothing w w"
  by (simp add: sets_nothing_def)

lemma sets_nothing_trans: "sets_nothing a b \<Longrightarrow> sets_nothing b c \<Longrightarrow> sets_nothing a c"
  by (auto simp: sets_nothing_def)

lemma reads_only_sets_nothing: "reads_only w w' \<Longrightarrow> sets_nothing w w'"
  by (auto simp: reads_only_def sets_nothing_def list_all_iff dest: is_Set_mutating)

lemma mutate_sets_nothing: "\<not> is_Set c \<Longrightarrow> sets_nothing w (snd (mutate c f w))"
  by (auto simp: mutate_def sets_nothing_def logc_def split: prod.splits)

lemma mutate_after:
  assumes "\<not> is_Set c" and "sets_nothing w0 w"
  shows "sets_nothing w0 (snd (case mutate c f w of (e, w') \<Rightarrow> (kverr_opt e, w')))"
proof -
  obtain e w' where m: "mutate c f w = (e, w')" by (cases "mutate c f w")
  have "sets_nothing w w'" using mutate_sets_nothing [OF assms(1), of w f] m by simp
  then show ?thesis using m assms(2) sets_nothing_trans by fastforce
qed

lemma deleteEntireSecret_sets_nothing:
  "sets_nothing w (snd (deleteEntireSecret V p destroy all w))"
proof -
  obtain secret key version where pp: "ParsePath V p = (secret, key, version)"
    by (cases "ParsePath V p")
  obtain r1 w1 where v: "Versions_of V secret w = (r1, w1)" by (cases "Versions_of V secret w")
  have a: "sets_nothing w w1"
    using Versions_of_reads [of w V secret] v by (simp add: reads_only_sets_nothing)
  note m0 = mutate_after [OF _ sets_nothing_refl [of w]]
  note m1 = mutate_after [OF _ a]
  show ?thesis
    unfolding deleteEntireSecret_def pp prod.case v Let_def
      client_DestroyAll_def client_Destroy_def client_Delete_def
    by (cases r1) (simp_all add: m0 m1 a split: sum.splits)
qed

lemma Delete_nokey:
  assumes "\<not> PathHasKey V (Canonicalize V p)"
  shows "sets_nothing w (snd (Delete V p opts w))"
proof -
  let ?cp = "Canonicalize V p"
  let ?vo = "\<lparr>AnyVersion = All opts,
            ReqState = (if Destroy opts then verifyStateAliveOrDeleted else verifyStateAlive)\<rparr>"
  obtain e1 w1 where v: "verifySecretState V ?cp ?vo w = (e1, w1)"
    by (cases "verifySecretState V ?cp ?vo w")
  obtain e2 w2 where g: "canSemanticallyDelete V ?cp w1 = (e2, w2)"
    by (cases "canSemanticallyDelete V ?cp w1")
  have a: "sets_nothing w w1"
    using verifySecretState_reads [of w V ?cp ?vo] v by (simp add: reads_only_sets_nothing)
  have b: "sets_nothing w1 w2"
    using canSemanticallyDelete_reads [of w1 V ?cp] g by (simp add: reads_only_sets_nothing)
  have ab: "sets_nothing w w2" by (rule sets_nothing_trans [OF a b])
  have c: "sets_nothing w (snd (deleteEntireSecret V ?cp (Destroy opts) (All opts) w2))"
    by (rule sets_nothing_trans [OF ab deleteEntireSecret_sets_nothing])
  show ?thesis
    using v g a ab c assms
    by (auto simp: Delete.simps Let_def split: option.splits)
qed

lemma deleteIfPresent_nokey:
  assumes "\<not> PathHasKey V (Canonicalize V path)"
  shows "sets_nothing w (snd (deleteIfPresent V path opts w))"
proof -
  obtain sp k n where pp: "ParsePath V path = (sp, k, n)" by (cases "ParsePath V path")
  obtain r w1 where rd: "Read V sp w = (r, w1)" by (cases "Read V sp w")
  have a: "sets_nothing w w1"
    using Read_reads [of w V sp] rd by (simp add: reads_only_sets_nothing)
  have b: "sets_nothing w (snd (Delete V path opts w1))"
    by (rule sets_nothing_trans [OF a Delete_nokey [OF assms]])
  show ?thesis
    using pp rd a b
    by (auto simp: deleteIfPresent.simps split: sum.splits prod.splits)
qed


text \<open>
  What \<open>Write\<close> holds to.  It returns an error for a key-qualified path and for a
  version-qualified path and leaves the world as it was (no request is sent).  For an empty
  secret it is \<open>deleteIfPresent\<close> of the parsed path: when that path, canonicalised and parsed
  again, carries no key, no set request is sent; when nothing exists at the path it returns
  success after a read; when a secret is there it is the result of \<open>Delete\<close> on the path.
\<close>


lemma Write_guards:
  assumes "ParsePath V p = (path, key, version)"
  shows "(key \<noteq> [] \<longrightarrow>
            Write V p s w = (Some (Errorf ''cannot write to paths in /path:key notation''), w)) \<and>
         (key = [] \<and> version \<noteq> 0 \<longrightarrow>
            Write V p s w = (Some (Errorf ''cannot write to paths in /path^version notation''), w)) \<and>
         (key = [] \<and> version = 0 \<and> Empty s \<longrightarrow>
            Write V p s w = deleteIfPresent V path \<lparr>Destroy = False, All = False\<rparr> w \<and>
            (\<not> PathHasKey V (Canonicalize V path) \<longrightarrow> sets_nothing w (snd (Write V p s w))) \<and>
            (\<forall>m w1. Read V (fst (ParsePath V path)) w = (Inl (secretNotFound m), w1) \<longrightarrow>
               Write V p s w = (None, w1) \<and> reads_only w w1) \<and>
            (\<forall>sec w1. Read V (fst (ParsePath V path)) w = (Inr sec, w1) \<longrightarrow>
               Write V p s w =
                 (case Delete V path \<lparr>Destroy = False, All = False\<rparr> w1 of
                    (err, w2) \<Rightarrow> (if IsKeyNotFound err then (None, w2) else (err, w2)))))"
proof -
  have a: "key \<noteq> [] \<longrightarrow>
            Write V p s w = (Some (Errorf ''cannot write to paths in /path:key notation''), w)"
    using assms by (simp add: Write.simps)
  have b: "key = [] \<and> version \<noteq> 0 \<longrightarrow>
            Write V p s w = (Some (Errorf ''cannot write to paths in /path^version notation''), w)"
    using assms by (simp add: Write.simps)
  have c: "key = [] \<and> version = 0 \<and> Empty s \<longrightarrow>
            Write V p s w = deleteIfPresent V path \<lparr>Destroy = False, All = False\<rparr> w"
    using assms by (simp add: Write.simps)
  have d: "\<And>m w1. Read V (fst (ParsePath V path)) w = (Inl (secretNotFound m), w1) \<Longrightarrow>
            deleteIfPresent V path \<lparr>Destroy = False, All = False\<rparr> w = (None, w1) \<and> reads_only w w1"
    using Read_reads [of w V "fst (ParsePath V path)"]
    by (auto simp: deleteIfPresent.simps split: prod.splits)
  have e: "\<And>sec w1. Read V (fst (ParsePath V path)) w = (Inr sec, w1) \<Longrightarrow>
            deleteIfPresent V path \<lparr>Destroy = False, All = False\<rparr> w =
              (case Delete V path \<lparr>Destroy = False, All = False\<rparr> w1 of
                 (err, w2) \<Rightarrow> (if IsKeyNotFound err then (None, w2) else (err, w2)))"
    by (auto simp: deleteIfPresent.simps split: prod.splits)
  show ?thesis
    using a b c d e deleteIfPresent_nokey [of V path w "\<lparr>Destroy = False, All = False\<rparr>"]
    by simp
qed

lemma Write_guards_example:
  "Write mem_vault ''secret/a:k'' [(''x'', ''y'')] (world0 stA)
     = (Some (Errorf ''cannot write to paths in /path:key notation''), world0 stA) \<and>
   Write mem_vault ''secret/a^2'' [(''x'', ''y'')] (world0 stA)
     = (Some (Errorf ''cannot write to paths in /path^version notation''), world0 stA) \<and>
   Write mem_vault ''secret/zz'' [] (world0 stA) = (None, logc (CallGet ''secret/zz'' 0) (world0 stA)) \<and>
   sets_nothing (world0 stA) (snd (Write mem_vault ''secret/b'' [] (world0 stA))) \<and>
   filter mutating (calls (snd (Write mem_vault ''secret/b'' [] (world0 stA))))
     = [CallDelete ''secret/b'' [] True]"
proof -
  have p1: "ParsePath mem_vault ''secret/a:k'' = (''secret/a'', ''k'', 0)"
    and p2: "ParsePath mem_vault ''secret/a^2'' = (''secret/a'', [], 2)"
    and p3: "ParsePath mem_vault ''secret/zz'' = (''secret/zz'', [], 0)"
    and p4: "ParsePath mem_vault ''secret/b'' = (''secret/b'', [], 0)"
    by code_simp+
  have nk: "\<not> PathHasKey mem_vault (Canonicalize mem_vault ''secret/b'')" by code_simp
  have em: "Empty []" by (simp add: Empty_def)
  have rz: "Read mem_vault (fst (ParsePath mem_vault ''secret/zz'')) (world0 stA)
              = (Inl (secretNotFound (''no secret exists at path '' @ [bq] @ ''secret/zz'' @ [bq])),
                 logc (CallGet ''secret/zz'' 0) (world0 stA))"
    by code_simp
  have rb: "Read mem_vault (fst (ParsePath mem_vault ''secret/b'')) (world0 stA)
              = (Inr [(''x'', ''y'')], logc (CallGet ''secret/b'' 0) (world0 stA))"
    by code_simp
  have 1: "Write mem_vault ''secret/a:k'' [(''x'', ''y'')] (world0 stA)
     = (Some (Errorf ''cannot write to paths in /path:key notation''), world0 stA)"
    using Write_guards [OF p1, of "[(''x'', ''y'')]" "world0 stA"] by simp
  have 2: "Write mem_vault ''secret/a^2'' [(''x'', ''y'')] (world0 stA)
     = (Some (Errorf ''cannot write to paths in /path^version notation''), world0 stA)"
    using Write_guards [OF p2, of "[(''x'', ''y'')]" "world0 stA"] by simp
  have 3: "Write mem_vault ''secret/zz'' [] (world0 stA) = (None, logc (CallGet ''secret/zz'' 0) (world0 stA))"
    using Write_guards [OF p3, of "[]" "world0 stA"] rz em by blast
  have 4: "sets_nothing (world0 stA) (snd (Write mem_vault ''secret/b'' [] (world0 stA)))"
    using Write_guards [OF p4, of "[]" "world0 stA"] nk em by blast
  have e5: "Write mem_vault ''secret/b'' [] (world0 stA) =
           (case Delete mem_vault ''secret/b'' \<lparr>Destroy = False, All = False\<rparr>
                   (logc (CallGet ''secret/b'' 0) (world0 stA)) of
              (err, w2) \<Rightarrow> (if IsKeyNotFound err then (None, w2) else (err, w2)))"
    using Write_guards [OF p4, of "[]" "world0 stA"] rb em by blast
  have 5: "filter mutating (calls (snd (Write mem_vault ''secret/b'' [] (world0 stA))))
     = [CallDelete ''secret/b'' [] True]"
    by (subst e5) code_simp
  show ?thesis using 1 2 3 4 5 by simp
qed


text \<open>
  Claim C10 says that \<open>Write\<close> with an empty secret sends no set request and deletes the
  secret at the path if one is present.  \<open>Write\<close> hands the path it has parsed, and so
  unescaped, to \<open>deleteIfPresent\<close>, which parses it again, as does \<open>Delete\<close>.  For the secret
  named \<open>secret/f:oo\<close>, addressed with its colon escaped, the second parse finds the key
  \<open>oo\<close> of the secret \<open>secret/f\<close>: the empty write leaves \<open>secret/f:oo\<close> as it was and
  sends a set request that rewrites \<open>secret/f\<close> without that key.
\<close>

theorem Write_empty_escaped:
  "ParsePath mem_vault escaped_path = (''secret/f:oo'', [], 0) \<and>
   Write mem_vault escaped_path [] (world0 stE) =
     (None,
      \<lparr>store =
         [(''secret/f'',
           [(alive 1, [(''oo'', JString ''1''), (''x'', JString ''2'')]),
            (alive 2, [(''x'', JString ''2'')])]),
          (''secret/f:oo'', [(alive 1, [(''k'', JString ''v''), (''j'', JString ''w'')])])],
       calls =
         [CallGet ''secret/f'' 0, CallMountVersion ''secret/f'', CallVersions ''secret/f'',
          CallGet ''secret/f'' 0, CallSet ''secret/f'' [(''x'', ''2'')]],
       stderr = []\<rparr>)"
  by code_simp


section \<open>Copying and moving a tree without clobbering\<close>






section \<open>Moving one secret\<close>

text \<open>
  Claim C5 says that the error of the destroy-all that cleans up the source of a deep move with
  deleted versions reaches the caller of \<open>Move\<close>.  The clean-up is a destroy-all, but its
  error is dropped: \<open>Move\<close> returns success whatever the backend answered.
\<close>

theorem Move_deep_drops_error:
  assumes "Deep opts" and "DeletedVersions opts"
    and "canSemanticallyDelete V (Canonicalize V oldpath) w = (None, w1)"
    and "Copy V (Canonicalize V oldpath) (Canonicalize V newpath) opts w1 = (None, w2)"
    and "client_DestroyAll V (Canonicalize V oldpath) w2 = (err, w3)"
  shows "Move V oldpath newpath opts w = (None, w3)"
  using assms by (simp add: Move_def Let_def)

theorem Move_deep_drops_error_witness:
  "fst (client_DestroyAll denying_vault ''secret/a''
          (snd (Copy denying_vault ''secret/a'' ''secret/c'' deepOpts (world0 stA))))
     = Some (ErrKV ''403 permission denied'') \<and>
   fst (Move denying_vault ''secret/a'' ''secret/c'' deepOpts (world0 stA)) = None \<and>
   map_of (store (snd (Move denying_vault ''secret/a'' ''secret/c'' deepOpts (world0 stA)))) ''secret/a''
     = map_of stA ''secret/a''"
proof -
  let ?w = "world0 stA"
  have d: "Deep deepOpts" "DeletedVersions deepOpts" by (simp_all add: deepOpts_def)
  have c: "Canonicalize denying_vault ''secret/a'' = ''secret/a''"
          "Canonicalize denying_vault ''secret/c'' = ''secret/c''"
    by code_simp+
  have g: "canSemanticallyDelete denying_vault (Canonicalize denying_vault ''secret/a'') ?w = (None, ?w)"
    by code_simp
  have cp: "fst (Copy denying_vault (Canonicalize denying_vault ''secret/a'')
                   (Canonicalize denying_vault ''secret/c'') deepOpts ?w) = None"
    by code_simp
  note m = Move_deep_drops_error [OF d g pair_of_fst [OF cp] prod.collapse [symmetric]]
  have 1: "fst (client_DestroyAll denying_vault ''secret/a''
          (snd (Copy denying_vault ''secret/a'' ''secret/c'' deepOpts (world0 stA))))
     = Some (ErrKV ''403 permission denied'')"
    by code_simp
  have 2: "fst (Move denying_vault ''secret/a'' ''secret/c'' deepOpts (world0 stA)) = None"
    by (subst m) simp
  have 3: "map_of (store (snd (Move denying_vault ''secret/a'' ''secret/c'' deepOpts (world0 stA)))) ''secret/a''
     = map_of stA ''secret/a''"
    by (subst m) code_simp
  show ?thesis using 1 2 3 by simp
qed


lemma Copy_skip:
  assumes "SkipIfExists opts" and "\<not> (DeletedVersions opts \<and> \<not> Deep opts)"
    and "verifySecretState V (Canonicalize V oldpath)
           \<lparr>AnyVersion = Deep opts,
            ReqState = (if DeletedVersions opts then verifyStateAliveOrDeleted
                        else verifyStateAlive)\<rparr> w = (None, w1)"
    and "Read V (Canonicalize V newpath) w1 = (Inr sec, w2)"
  shows "Copy V oldpath newpath opts w =
           (None, if Quiet opts then w2 else say [RefuseClobber (Canonicalize V newpath)] w2)"
    and "reads_only w w2"
proof -
  show "Copy V oldpath newpath opts w =
           (None, if Quiet opts then w2 else say [RefuseClobber (Canonicalize V newpath)] w2)"
    using assms by (auto simp: Copy_def Let_def)
  have a: "reads_only w w1"
    using verifySecretState_reads [of w V "Canonicalize V oldpath"] assms(3) by (metis snd_conv)
  have b: "reads_only w1 w2"
    using Read_reads [of w1 V "Canonicalize V newpath"] assms(4) by simp
  show "reads_only w w2" by (rule reads_only_trans [OF a b])
qed


text \<open>
  Claim C1 says that a \<open>Copy\<close> or \<open>Move\<close> with \<open>SkipIfExists\<close> onto an existing destination
  returns success and mutates nothing, the source of a move included.  For \<open>Copy\<close> that is so
  (\<open>Copy_skip\<close>).  \<open>Move\<close> cannot tell the refusal from a finished copy: after the copy
  stage, which only reads, it goes on to remove the source.
\<close>

theorem Move_skip_removes_source:
  assumes "SkipIfExists opts" and "\<not> (DeletedVersions opts \<and> \<not> Deep opts)"
    and "canSemanticallyDelete V (Canonicalize V oldpath) w = (None, w1)"
    and "verifySecretState V (Canonicalize V (Canonicalize V oldpath))
           \<lparr>AnyVersion = Deep opts,
            ReqState = (if DeletedVersions opts then verifyStateAliveOrDeleted
                        else verifyStateAlive)\<rparr> w1 = (None, w2)"
    and "Read V (Canonicalize V (Canonicalize V newpath)) w2 = (Inr sec, w3)"
    and "w4 = (if Quiet opts then w3
               else say [RefuseClobber (Canonicalize V (Canonicalize V newpath))] w3)"
  shows "reads_only w w3 \<and>
         Copy V (Canonicalize V oldpath) (Canonicalize V newpath) opts w1 = (None, w4) \<and>
         Move V oldpath newpath opts w =
           (if Deep opts \<and> DeletedVersions opts
            then (None, snd (client_DestroyAll V (Canonicalize V oldpath) w4))
            else Delete V (Canonicalize V oldpath) \<lparr>Destroy = False, All = False\<rparr> w4)"
proof -
  have c: "Copy V (Canonicalize V oldpath) (Canonicalize V newpath) opts w1 = (None, w4)"
    using Copy_skip(1) [OF assms(1,2,4,5)] assms(6) by simp
  have r0: "reads_only w w1"
    using canSemanticallyDelete_reads [of w V "Canonicalize V oldpath"] assms(3) by simp
  have r: "reads_only w w3"
    by (rule reads_only_trans [OF r0 Copy_skip(2) [OF assms(1,2,4,5)]])
  have m: "Move V oldpath newpath opts w =
           (if Deep opts \<and> DeletedVersions opts
            then (None, snd (client_DestroyAll V (Canonicalize V oldpath) w4))
            else Delete V (Canonicalize V oldpath) \<lparr>Destroy = False, All = False\<rparr> w4)"
    using assms(3) c
    by (auto simp: Move_def Let_def split: prod.splits option.splits)
  show ?thesis using r c m by simp
qed

theorem Move_skip_removes_source_witness:
  "fst (Read mem_vault ''secret/b'' (world0 stA)) = Inr [(''x'', ''y'')] \<and>
   Move mem_vault ''secret/a'' ''secret/b'' skipOpts (world0 stA) =
     (None,
      \<lparr>store =
         [(''secret/a'',
           [(\<lparr>Version = 1, Deleted = False, Destroyed = False\<rparr>,
             [(''k'', JString ''1''), (''j'', JString ''2'')]),
            (\<lparr>Version = 2, Deleted = True, Destroyed = False\<rparr>,
             [(''k'', JString ''3''), (''j'', JString ''4'')])]),
          (''secret/b'',
           [(\<lparr>Version = 1, Deleted = False, Destroyed = False\<rparr>, [(''x'', JString ''y'')])])],
       calls =
         [CallMountVersion ''secret/a'', CallVersions ''secret/a'', CallGet ''secret/b'' 0,
          CallMountVersion ''secret/a'', CallVersions ''secret/a'', CallDelete ''secret/a'' [] True],
       stderr = [RefuseClobber ''secret/b'']\<rparr>)"
proof -
  let ?w = "world0 stA"
  let ?vo = "\<lparr>AnyVersion = Deep skipOpts,
            ReqState = (if DeletedVersions skipOpts then verifyStateAliveOrDeleted
                        else verifyStateAlive)\<rparr>"
  let ?w2 = "\<lparr>store = stA, calls = [CallMountVersion ''secret/a'', CallVersions ''secret/a''], stderr = []\<rparr>"
  let ?w3 = "\<lparr>store = stA, calls = [CallMountVersion ''secret/a'', CallVersions ''secret/a'',
                CallGet ''secret/b'' 0], stderr = []\<rparr>"
  have s: "SkipIfExists skipOpts" "\<not> (DeletedVersions skipOpts \<and> \<not> Deep skipOpts)"
    by (simp_all add: skipOpts_def)
  have g: "canSemanticallyDelete mem_vault (Canonicalize mem_vault ''secret/a'') ?w = (None, ?w)"
    by code_simp
  have v: "verifySecretState mem_vault (Canonicalize mem_vault (Canonicalize mem_vault ''secret/a'')) ?vo ?w
             = (None, ?w2)"
    by code_simp
  have r: "Read mem_vault (Canonicalize mem_vault (Canonicalize mem_vault ''secret/b'')) ?w2
             = (Inr [(''x'', ''y'')], ?w3)"
    by code_simp
  note m = Move_skip_removes_source [OF s g v r refl]
  have e: "Move mem_vault ''secret/a'' ''secret/b'' skipOpts ?w =
             Delete mem_vault (Canonicalize mem_vault ''secret/a'') \<lparr>Destroy = False, All = False\<rparr>
               (if Quiet skipOpts then ?w3
                else say [RefuseClobber (Canonicalize mem_vault (Canonicalize mem_vault ''secret/b''))] ?w3)"
    using m by (simp add: skipOpts_def)
  have 1: "fst (Read mem_vault ''secret/b'' (world0 stA)) = Inr [(''x'', ''y'')]" by code_simp
  have 2: "Move mem_vault ''secret/a'' ''secret/b'' skipOpts (world0 stA) =
     (None,
      \<lparr>store =
         [(''secret/a'',
           [(\<lparr>Version = 1, Deleted = False, Destroyed = False\<rparr>,
             [(''k'', JString ''1''), (''j'', JString ''2'')]),
            (\<lparr>Version = 2, Deleted = True, Destroyed = False\<rparr>,
             [(''k'', JString ''3''), (''j'', JString ''4'')])]),
          (''secret/b'',
           [(\<lparr>Version = 1, Deleted = False, Destroyed = False\<rparr>, [(''x'', JString ''y'')])])],
       calls =
         [CallMountVersion ''secret/a'', CallVersions ''secret/a'', CallGet ''secret/b'' 0,
          CallMountVersion ''secret/a'', CallVersions ''secret/a'', CallDelete ''secret/a'' [] True],
       stderr = [RefuseClobber ''secret/b'']\<rparr>)"
    by (subst e) code_simp
  show ?thesis using 1 2 by simp
qed



end
